theory Spec2Isabelle
  imports Main "HOL-Library.Multiset"
begin

section \<open>Session management of the CodeChecker server\<close>

text \<open>
  A shallow embedding of \<^verbatim>\<open>libcodechecker/server/session_manager.py\<close>: the class
  \<^verbatim>\<open>_Session\<close> and the class \<^verbatim>\<open>SessionManager\<close>.

  Conventions of the model.
  \<^item> Time is counted in whole seconds (\<open>int\<close>); every operation reads the clock once and
    receives that reading as its argument \<open>now\<close>.
  \<^item> \<^verbatim>\<open>_Session\<close> objects are mutable and shared between the manager's list and its
    callers, so they live in an explicit object store (\<open>objects\<close>, addressed by position)
    and the manager's list \<^verbatim>\<open>__sessions\<close> holds addresses.
  \<^item> A Python exception that leaves a method is the value \<open>Inl e\<close>; the state reached before
    the exception is kept, as Python keeps it.
  \<^item> The token drawn from \<^verbatim>\<open>os.urandom\<close> is an argument (\<open>fresh\<close>) of the operation that
    may draw it.
  \<^item> The configuration keys \<^verbatim>\<open>enabled\<close>, \<^verbatim>\<open>session_lifetime\<close> and
    \<^verbatim>\<open>logins_until_cleanup\<close> are taken to be present in the parsed configuration; a
    missing \<^verbatim>\<open>enabled\<close> of a method block reads as false, as \<^verbatim>\<open>.get('enabled')\<close> does.
\<close>

subsection \<open>Python values\<close>

datatype py_error = TypeError | ValueError | UnboundLocalError

text \<open>\<^verbatim>\<open>s.split(sep)\<close> for a separator of one character: every occurrence splits, and the
  result is never empty.\<close>

fun py_split :: "char \<Rightarrow> string \<Rightarrow> string list" where
  "py_split sep [] = [[]]"
| "py_split sep (c # cs) =
     (if c = sep then [] # py_split sep cs
      else (case py_split sep cs of
              w # ws \<Rightarrow> (c # w) # ws
            | [] \<Rightarrow> [[c]]))"

text \<open>\<^verbatim>\<open>sep.join(xs)\<close>.\<close>

fun py_join :: "string \<Rightarrow> string list \<Rightarrow> string" where
  "py_join sep [] = []"
| "py_join sep [x] = x"
| "py_join sep (x # y # ys) = x @ sep @ py_join sep (y # ys)"

subsection \<open>Configuration and the modules outside the file\<close>

type_synonym ldap_conf = string

record dictionary_config =
  dictionary_enabled :: bool
  auths :: "string list option"
  dictionary_groups :: "(string \<Rightarrow> string list option) option"

record pam_config =
  pam_enabled :: bool

record ldap_config =
  ldap_enabled :: bool
  authorities :: "ldap_conf list option"

text \<open>\<^verbatim>\<open>self.__auth_config\<close> after \<^verbatim>\<open>__init__\<close>: \<open>method_root\<close> is the root hash handed
  to the constructor (\<open>None\<close> when the constructor was given \<^verbatim>\<open>None\<close>).\<close>

record auth_config =
  enabled :: bool
  config_session_lifetime :: int
  logins_until_cleanup :: int
  method_root :: "string option"
  method_dictionary :: "dictionary_config option"
  method_pam :: "pam_config option"
  method_ldap :: "ldap_config option"

text \<open>What the file imports and does not define: the list \<^verbatim>\<open>UNSUPPORTED_METHODS\<close> built at
  import time, \<^verbatim>\<open>hashlib.sha256(...).hexdigest()\<close>, \<^verbatim>\<open>cc_pam.auth_user\<close> (with the PAM
  block already applied), \<^verbatim>\<open>cc_ldap.auth_user\<close> and \<^verbatim>\<open>cc_ldap.get_groups\<close>.\<close>

record env =
  unsupported_methods :: "string list"
  sha256_hexdigest :: "string \<Rightarrow> string"
  pam_auth_user :: "string \<Rightarrow> string \<Rightarrow> bool"
  ldap_auth_user :: "ldap_conf \<Rightarrow> string \<Rightarrow> string \<Rightarrow> bool"
  ldap_get_groups :: "ldap_conf \<Rightarrow> string \<Rightarrow> string \<Rightarrow> string list"

subsection \<open>The durable store\<close>

text \<open>
  Modelled from the spec: the classes \<^verbatim>\<open>Session\<close> and \<^verbatim>\<open>SystemPermission\<close> of
  \<^verbatim>\<open>database.config_db_model\<close> and the transaction object are not part of the file. A
  session row has a token, a user name, the groups joined by semicolons and the time of
  the last access, which for a new row is the time of its creation; a system-permission
  row is known by its name.

  The store is reached through \<^verbatim>\<open>self.__database_connection\<close>, a callable that yields a
  transaction. A store is healthy, or raises when the callable is called
  (\<open>ConnectRaises\<close>), or yields a transaction whose every query, insertion, deletion and
  commit raises (\<open>QueryRaises\<close>); closing a transaction does not raise. The fault of a
  store does not change while one operation runs.
\<close>

record session_record =
  rec_token :: string
  rec_user_name :: string
  rec_groups :: string
  rec_last_access :: int

datatype fault = Healthy | ConnectRaises | QueryRaises

record durable_store =
  session_rows :: "session_record list"
  permission_rows :: "string list"
  fault :: fault

text \<open>\<^verbatim>\<open>query(SessionRecord.token).filter(SessionRecord.user_name == user_name).all()\<close>\<close>

definition tokens_of_user :: "string \<Rightarrow> durable_store \<Rightarrow> string list" where
  "tokens_of_user user_name db =
     map rec_token (filter (\<lambda>r. rec_user_name r = user_name) (session_rows db))"

text \<open>\<^verbatim>\<open>query(SessionRecord).filter(SessionRecord.token == token).limit(1).one_or_none()\<close>\<close>

definition record_of_token :: "string \<Rightarrow> durable_store \<Rightarrow> session_record option" where
  "record_of_token t db = find (\<lambda>r. rec_token r = t) (session_rows db)"

text \<open>\<^verbatim>\<open>query(SystemPermission).filter(SystemPermission.name == user_name)\<close> finds a row.\<close>

definition has_system_permission :: "string \<Rightarrow> durable_store \<Rightarrow> bool" where
  "has_system_permission user_name db = (user_name \<in> set (permission_rows db))"

fun touch_first :: "string \<Rightarrow> int \<Rightarrow> session_record list \<Rightarrow> session_record list" where
  "touch_first t now [] = []"
| "touch_first t now (r # rs) =
     (if rec_token r = t then r\<lparr>rec_last_access := now\<rparr> # rs
      else r # touch_first t now rs)"

text \<open>The first row of the token gets the new time stamp, and the change is committed.\<close>

definition update_last_access :: "string \<Rightarrow> int \<Rightarrow> durable_store \<Rightarrow> durable_store" where
  "update_last_access t now db = db\<lparr>session_rows := touch_first t now (session_rows db)\<rparr>"

text \<open>\<^verbatim>\<open>transaction.add(record); transaction.commit()\<close>\<close>

definition add_record :: "session_record \<Rightarrow> durable_store \<Rightarrow> durable_store" where
  "add_record r db = db\<lparr>session_rows := session_rows db @ [r]\<rparr>"

text \<open>\<^verbatim>\<open>query(SessionRecord).filter(SessionRecord.token == token).delete()\<close>, committed.\<close>

definition delete_token :: "string \<Rightarrow> durable_store \<Rightarrow> durable_store" where
  "delete_token t db = db\<lparr>session_rows := filter (\<lambda>r. rec_token r \<noteq> t) (session_rows db)\<rparr>"

subsection \<open>The class \<^verbatim>\<open>_Session\<close>\<close>

text \<open>\<open>database\<close> tells whether the object was given the store's callable.\<close>

record session =
  token :: string
  user :: string
  groups :: "string list"
  session_lifetime :: int
  root :: bool
  database :: bool
  last_access :: int

text \<open>\<^verbatim>\<open>_Session.__init__\<close>: without a \<open>last_access\<close> the clock is read.\<close>

definition Session_init ::
  "int \<Rightarrow> string \<Rightarrow> string \<Rightarrow> string list \<Rightarrow> int \<Rightarrow> bool \<Rightarrow> bool \<Rightarrow> int option \<Rightarrow> session" where
  "Session_init now tok username grps lifetime is_root db la =
     \<lparr>token = tok, user = username, groups = grps, session_lifetime = lifetime,
      root = is_root, database = db,
      last_access = (case la of Some t \<Rightarrow> t | None \<Rightarrow> now)\<rparr>"

definition is_alive :: "int \<Rightarrow> session \<Rightarrow> bool" where
  "is_alive now s = (now - last_access s \<le> session_lifetime s)"

subsection \<open>The state of a server process\<close>

text \<open>\<open>objects\<close> is the object store; \<open>database_connection\<close> tells whether
  \<^verbatim>\<open>self.__database_connection\<close> is set; \<open>sessions\<close> is \<^verbatim>\<open>self.__sessions\<close>.\<close>

record state =
  objects :: "session list"
  database_connection :: bool
  logins_since_prune :: int
  sessions :: "nat list"
  store :: durable_store

type_synonym 'a step = "state \<Rightarrow> (py_error + 'a) \<times> state"

text \<open>The fields \<^verbatim>\<open>__init__\<close> sets, beside a store that exists on its own.\<close>

definition init_state :: "durable_store \<Rightarrow> state" where
  "init_state db =
     \<lparr>objects = [], database_connection = False, logins_since_prune = 0, sessions = [],
      store = db\<rparr>"

definition set_database_connection :: "bool \<Rightarrow> state \<Rightarrow> state" where
  "set_database_connection connection st = st\<lparr>database_connection := connection\<rparr>"

text \<open>A call of the class \<^verbatim>\<open>_Session\<close> makes a new object, at a new address.\<close>

definition new_session :: "session \<Rightarrow> state \<Rightarrow> nat \<times> state" where
  "new_session s st = (length (objects st), st\<lparr>objects := objects st @ [s]\<rparr>)"

text \<open>
  \<^verbatim>\<open>_Session.revalidate\<close>. When the callable raises, \<open>transaction\<close> is not bound in the
  \<^verbatim>\<open>finally\<close> clause, which then raises \<^verbatim>\<open>UnboundLocalError\<close>.
\<close>

definition revalidate :: "int \<Rightarrow> nat \<Rightarrow> unit step" where
  "revalidate now r st =
     (let s = objects st ! r in
      if \<not> is_alive now s then (Inr (), st)
      else
        let st1 = st\<lparr>objects := (objects st)[r := s\<lparr>last_access := now\<rparr>]\<rparr> in
        if database s then
          (case fault (store st1) of
             ConnectRaises \<Rightarrow> (Inl UnboundLocalError, st1)
           | QueryRaises \<Rightarrow> (Inr (), st1)
           | Healthy \<Rightarrow>
               (Inr (), st1\<lparr>store := update_last_access (token s) now (store st1)\<rparr>))
        else (Inr (), st1))"

subsection \<open>The validators\<close>

text \<open>A validation object: \<^verbatim>\<open>username\<close> is always there, \<^verbatim>\<open>groups\<close> and \<^verbatim>\<open>root\<close> are
  optional keys. \<^verbatim>\<open>False\<close> is \<open>None\<close>.\<close>

record validation =
  username_key :: string
  groups_key :: "string list option"
  root_key :: "bool option"

definition get_user_name :: "string \<Rightarrow> string" where
  "get_user_name auth_string =
     (case py_split CHR '':'' auth_string of w # _ \<Rightarrow> w | [] \<Rightarrow> [])"

text \<open>\<^verbatim>\<open>self.__auth_config['method_' + method].get('enabled')\<close>, \<open>None\<close> when the block is
  missing.\<close>

definition method_enabled_key :: "auth_config \<Rightarrow> string \<Rightarrow> bool option" where
  "method_enabled_key cfg m =
     (if m = ''dictionary'' then map_option dictionary_enabled (method_dictionary cfg)
      else if m = ''pam'' then map_option pam_enabled (method_pam cfg)
      else if m = ''ldap'' then map_option ldap_enabled (method_ldap cfg)
      else None)"

definition is_method_enabled :: "env \<Rightarrow> auth_config \<Rightarrow> string \<Rightarrow> bool" where
  "is_method_enabled e cfg m =
     (m \<notin> set (unsupported_methods e) \<and>
      (case method_enabled_key cfg m of Some b \<Rightarrow> b | None \<Rightarrow> False))"

definition try_auth_root :: "env \<Rightarrow> auth_config \<Rightarrow> string \<Rightarrow> validation option" where
  "try_auth_root e cfg auth_string =
     (if Some (sha256_hexdigest e auth_string) = method_root cfg
      then Some \<lparr>username_key = get_user_name auth_string, groups_key = Some [],
                 root_key = Some True\<rparr>
      else None)"

text \<open>\<^verbatim>\<open>auth_string in method_config.get('auths')\<close> raises \<^verbatim>\<open>TypeError\<close> when the key
  \<^verbatim>\<open>auths\<close> is missing; it is evaluated only when the method is enabled.\<close>

definition try_auth_dictionary ::
  "env \<Rightarrow> auth_config \<Rightarrow> string \<Rightarrow> py_error + validation option" where
  "try_auth_dictionary e cfg auth_string =
     (case method_dictionary cfg of
        None \<Rightarrow> Inr None
      | Some method_config \<Rightarrow>
          if \<not> is_method_enabled e cfg ''dictionary'' then Inr None
          else
            (case auths method_config of
               None \<Rightarrow> Inl TypeError
             | Some entries \<Rightarrow>
                 if auth_string \<notin> set entries then Inr None
                 else
                   let username = get_user_name auth_string;
                       group_list =
                         (case dictionary_groups method_config of
                            None \<Rightarrow> []
                          | Some g \<Rightarrow> (case g username of Some l \<Rightarrow> l | None \<Rightarrow> []))
                   in Inr (Some \<lparr>username_key = username, groups_key = Some group_list,
                                  root_key = None\<rparr>)))"

text \<open>\<^verbatim>\<open>username, password = auth_string.split(':')\<close> raises \<^verbatim>\<open>ValueError\<close> unless the
  split has exactly two parts.\<close>

definition try_auth_pam :: "env \<Rightarrow> auth_config \<Rightarrow> string \<Rightarrow> py_error + validation option" where
  "try_auth_pam e cfg auth_string =
     (if is_method_enabled e cfg ''pam'' then
        (case py_split CHR '':'' auth_string of
           [username, password] \<Rightarrow>
             if pam_auth_user e username password
             then Inr (Some \<lparr>username_key = username, groups_key = None, root_key = None\<rparr>)
             else Inr None
         | _ \<Rightarrow> Inl ValueError)
      else Inr None)"

text \<open>The loop over the authorities of \<^verbatim>\<open>__try_auth_ldap\<close>.\<close>

fun try_authorities :: "env \<Rightarrow> ldap_conf list \<Rightarrow> string \<Rightarrow> string \<Rightarrow> validation option" where
  "try_authorities e [] username password = None"
| "try_authorities e (ldap_conf # rest) username password =
     (if ldap_auth_user e ldap_conf username password
      then Some \<lparr>username_key = username,
                 groups_key = Some (ldap_get_groups e ldap_conf username password),
                 root_key = None\<rparr>
      else try_authorities e rest username password)"

text \<open>Iterating over a missing \<^verbatim>\<open>authorities\<close> key raises \<^verbatim>\<open>TypeError\<close>.\<close>

definition try_auth_ldap :: "env \<Rightarrow> auth_config \<Rightarrow> string \<Rightarrow> py_error + validation option" where
  "try_auth_ldap e cfg auth_string =
     (if is_method_enabled e cfg ''ldap'' then
        (case py_split CHR '':'' auth_string of
           [username, password] \<Rightarrow>
             (case method_ldap cfg of
                None \<Rightarrow> Inr None
              | Some block \<Rightarrow>
                  (case authorities block of
                     None \<Rightarrow> Inl TypeError
                   | Some ldap_authorities \<Rightarrow>
                       Inr (try_authorities e ldap_authorities username password)))
         | _ \<Rightarrow> Inl ValueError)
      else Inr None)"

definition handle_validation ::
  "env \<Rightarrow> auth_config \<Rightarrow> string \<Rightarrow> py_error + validation option" where
  "handle_validation e cfg auth_string =
     (case try_auth_dictionary e cfg auth_string of
        Inl err \<Rightarrow> Inl err
      | Inr (Some v) \<Rightarrow> Inr (Some v)
      | Inr None \<Rightarrow>
          (case try_auth_pam e cfg auth_string of
             Inl err \<Rightarrow> Inl err
           | Inr (Some v) \<Rightarrow> Inr (Some v)
           | Inr None \<Rightarrow>
               (case try_auth_ldap e cfg auth_string of
                  Inl err \<Rightarrow> Inl err
                | Inr (Some v) \<Rightarrow> Inr (Some v)
                | Inr None \<Rightarrow> Inr None)))"

text \<open>The validation of \<^verbatim>\<open>create_or_get_session\<close> (lines 367 to 374): the root check, and
  the other methods only when it fails.\<close>

definition authenticate :: "env \<Rightarrow> auth_config \<Rightarrow> string \<Rightarrow> py_error + validation option" where
  "authenticate e cfg auth_string =
     (case try_auth_root e cfg auth_string of
        Some v \<Rightarrow> Inr (Some v)
      | None \<Rightarrow> handle_validation e cfg auth_string)"

subsection \<open>The class \<^verbatim>\<open>SessionManager\<close>\<close>

text \<open>
  \<^verbatim>\<open>get_db_session_tokens\<close>: \<open>Inr None\<close> is the value \<^verbatim>\<open>None\<close>. When the callable raises,
  the handler logs and the \<^verbatim>\<open>finally\<close> clause reads the unbound \<open>transaction\<close>.
\<close>

definition get_db_session_tokens :: "string \<Rightarrow> state \<Rightarrow> py_error + string list option" where
  "get_db_session_tokens user_name st =
     (if \<not> database_connection st then Inr None
      else
        (case fault (store st) of
           ConnectRaises \<Rightarrow> Inl UnboundLocalError
         | QueryRaises \<Rightarrow> Inr None
         | Healthy \<Rightarrow> Inr (Some (tokens_of_user user_name (store st)))))"

definition get_local_session_from_db :: "auth_config \<Rightarrow> int \<Rightarrow> string \<Rightarrow> (nat option) step" where
  "get_local_session_from_db cfg now t st =
     (if \<not> database_connection st then (Inr None, st)
      else
        (case fault (store st) of
           ConnectRaises \<Rightarrow> (Inl UnboundLocalError, st)
         | QueryRaises \<Rightarrow> (Inr None, st)
         | Healthy \<Rightarrow>
             (case record_of_token t (store st) of
                None \<Rightarrow> (Inr None, st)
              | Some db_record \<Rightarrow>
                  let user_name = rec_user_name db_record;
                      is_root = has_system_permission user_name (store st);
                      (r, st1) =
                        new_session
                          (Session_init now t user_name
                             (py_split CHR '';'' (rec_groups db_record))
                             (config_session_lifetime cfg) is_root
                             (database_connection st)
                             (Some (rec_last_access db_record))) st
                  in (Inr (Some r), st1))))"

text \<open>The loop of \<^verbatim>\<open>invalidate\<close> over a copy of the list: \<^verbatim>\<open>list.remove\<close> takes out the
  first occurrence of the object.\<close>

fun remove_local :: "session list \<Rightarrow> string \<Rightarrow> nat list \<Rightarrow> nat list \<Rightarrow> nat list" where
  "remove_local objs t [] ss = ss"
| "remove_local objs t (r # rs) ss =
     remove_local objs t rs (if token (objs ! r) = t then remove1 r ss else ss)"

definition invalidate :: "string \<Rightarrow> bool step" where
  "invalidate t st =
     (if database_connection st then
        (case fault (store st) of
           ConnectRaises \<Rightarrow> (Inl UnboundLocalError, st)
         | QueryRaises \<Rightarrow>
             (Inr False,
              st\<lparr>sessions := remove_local (objects st) t (sessions st) (sessions st)\<rparr>)
         | Healthy \<Rightarrow>
             (Inr True,
              st\<lparr>sessions := remove_local (objects st) t (sessions st) (sessions st),
                 store := delete_token t (store st)\<rparr>))
      else
        (Inr True,
         st\<lparr>sessions := remove_local (objects st) t (sessions st) (sessions st)\<rparr>))"

definition get_session :: "auth_config \<Rightarrow> int \<Rightarrow> string \<Rightarrow> (nat option) step" where
  "get_session cfg now t st =
     (if \<not> enabled cfg then (Inr None, st)
      else
        (case find (\<lambda>r. is_alive now (objects st ! r) \<and> token (objects st ! r) = t)
                (sessions st) of
           Some r \<Rightarrow> (Inr (Some r), st)
         | None \<Rightarrow>
             (case get_local_session_from_db cfg now t st of
                (Inl err, st1) \<Rightarrow> (Inl err, st1)
              | (Inr (Some r), st1) \<Rightarrow>
                  if is_alive now (objects st1 ! r)
                  then (Inr (Some r), st1\<lparr>sessions := sessions st1 @ [r]\<rparr>)
                  else
                    (case invalidate t st1 of
                       (Inl err, st2) \<Rightarrow> (Inl err, st2)
                     | (Inr _, st2) \<Rightarrow> (Inr (Some r), st2))
              | (Inr None, st1) \<Rightarrow>
                  (case invalidate t st1 of
                     (Inl err, st2) \<Rightarrow> (Inl err, st2)
                   | (Inr _, st2) \<Rightarrow> (Inr None, st2)))))"

text \<open>The loop of \<^verbatim>\<open>__cleanup_sessions\<close>: the result of \<^verbatim>\<open>invalidate\<close> is dropped, an
  exception of it ends the loop.\<close>

fun invalidate_all :: "string list \<Rightarrow> unit step" where
  "invalidate_all [] st = (Inr (), st)"
| "invalidate_all (t # ts) st =
     (case invalidate t st of
        (Inl err, st1) \<Rightarrow> (Inl err, st1)
      | (Inr _, st1) \<Rightarrow> invalidate_all ts st1)"

definition cleanup_sessions :: "int \<Rightarrow> unit step" where
  "cleanup_sessions now st =
     (let tokens = map (\<lambda>r. token (objects st ! r))
                     (filter (\<lambda>r. \<not> is_alive now (objects st ! r)) (sessions st))
      in invalidate_all tokens (st\<lparr>logins_since_prune := 0\<rparr>))"

text \<open>What \<^verbatim>\<open>create_or_get_session\<close> returns: \<^verbatim>\<open>None\<close>, \<^verbatim>\<open>False\<close> or a session object.\<close>

datatype login_result = NoSessionRequired | Rejected | Session nat

text \<open>
  The second half of \<^verbatim>\<open>create_or_get_session\<close> (lines 376 to 411), for a validation
  object. \<^verbatim>\<open>len(tokens)\<close> raises \<^verbatim>\<open>TypeError\<close> when \<^verbatim>\<open>get_db_session_tokens\<close> returned
  \<^verbatim>\<open>None\<close>.
\<close>

definition session_for_validation ::
  "auth_config \<Rightarrow> int \<Rightarrow> string \<Rightarrow> validation \<Rightarrow> login_result step" where
  "session_for_validation cfg now fresh v st =
     (let user_name = username_key v in
      case get_db_session_tokens user_name st of
        Inl err \<Rightarrow> (Inl err, st)
      | Inr None \<Rightarrow> (Inl TypeError, st)
      | Inr (Some tokens) \<Rightarrow>
          let tok = (case tokens of t # _ \<Rightarrow> t | [] \<Rightarrow> fresh) in
          (case get_session cfg now tok st of
             (Inl err, st1) \<Rightarrow> (Inl err, st1)
           | (Inr (Some r), st1) \<Rightarrow>
               (case revalidate now r st1 of
                  (Inl err, st2) \<Rightarrow> (Inl err, st2)
                | (Inr _, st2) \<Rightarrow> (Inr (Session r), st2))
           | (Inr None, st1) \<Rightarrow>
               let grps = (case groups_key v of Some g \<Rightarrow> g | None \<Rightarrow> []);
                   is_root = (case root_key v of Some b \<Rightarrow> b | None \<Rightarrow> False);
                   (r, st2) =
                     new_session
                       (Session_init now tok user_name grps (config_session_lifetime cfg)
                          is_root (database_connection st1) None) st1;
                   st3 = st2\<lparr>sessions := sessions st2 @ [r]\<rparr>
               in
                 if database_connection st3 then
                   (case fault (store st3) of
                      ConnectRaises \<Rightarrow> (Inl UnboundLocalError, st3)
                    | QueryRaises \<Rightarrow> (Inr (Session r), st3)
                    | Healthy \<Rightarrow>
                        (Inr (Session r),
                         st3\<lparr>store :=
                               add_record
                                 \<lparr>rec_token = tok, rec_user_name = user_name,
                                  rec_groups = py_join '';'' grps, rec_last_access = now\<rparr>
                                 (store st3)\<rparr>))
                 else (Inr (Session r), st3)))"

definition create_or_get_session ::
  "env \<Rightarrow> auth_config \<Rightarrow> int \<Rightarrow> string \<Rightarrow> string \<Rightarrow> login_result step" where
  "create_or_get_session e cfg now fresh auth_string st =
     (if \<not> enabled cfg then (Inr NoSessionRequired, st)
      else
        let st1 = st\<lparr>logins_since_prune := logins_since_prune st + 1\<rparr> in
        (case (if logins_until_cleanup cfg \<le> logins_since_prune st1
               then cleanup_sessions now st1 else (Inr (), st1)) of
           (Inl err, st2) \<Rightarrow> (Inl err, st2)
         | (Inr _, st2) \<Rightarrow>
             (case authenticate e cfg auth_string of
                Inl err \<Rightarrow> (Inl err, st2)
              | Inr None \<Rightarrow> (Inr Rejected, st2)
              | Inr (Some v) \<Rightarrow> session_for_validation cfg now fresh v st2)))"

subsection \<open>Sequences of operations\<close>

text \<open>
  What a server process goes through: the public operations of the manager, the pruning
  pass on its own, a caller revalidating an object it holds, and the durable store
  changing under the process (other processes write to it, it fails or recovers).
\<close>

datatype operation =
    Create_or_get_session string string
  | Get_session string
  | Invalidate string
  | Cleanup_sessions
  | Revalidate nat
  | Set_database_connection bool
  | Store_changes durable_store

fun apply_op :: "env \<Rightarrow> auth_config \<Rightarrow> int \<Rightarrow> operation \<Rightarrow> state \<Rightarrow> state" where
  "apply_op e cfg now (Create_or_get_session auth_string fresh) st =
     snd (create_or_get_session e cfg now fresh auth_string st)"
| "apply_op e cfg now (Get_session t) st = snd (get_session cfg now t st)"
| "apply_op e cfg now (Invalidate t) st = snd (invalidate t st)"
| "apply_op e cfg now Cleanup_sessions st = snd (cleanup_sessions now st)"
| "apply_op e cfg now (Revalidate r) st =
     (if r < length (objects st) then snd (revalidate now r st) else st)"
| "apply_op e cfg now (Set_database_connection c) st = set_database_connection c st"
| "apply_op e cfg now (Store_changes db) st = st\<lparr>store := db\<rparr>"

text \<open>Each operation comes with the time at which it runs.\<close>

fun run :: "env \<Rightarrow> auth_config \<Rightarrow> (int \<times> operation) list \<Rightarrow> state \<Rightarrow> state" where
  "run e cfg [] st = st"
| "run e cfg ((now, operation) # rest) st = run e cfg rest (apply_op e cfg now operation st)"

subsection \<open>Predicates on states\<close>

text \<open>Every address in the manager's list is the address of an object.\<close>

definition refs_valid :: "state \<Rightarrow> bool" where
  "refs_valid st = list_all (\<lambda>r. r < length (objects st)) (sessions st)"

text \<open>The tokens of the sessions of the manager's list that are alive, in the list's
  order, one entry for each position.\<close>

definition live_tokens :: "int \<Rightarrow> state \<Rightarrow> string list" where
  "live_tokens now st =
     map (\<lambda>r. token (objects st ! r))
       (filter (\<lambda>r. is_alive now (objects st ! r)) (sessions st))"

definition one_live_per_token :: "int \<Rightarrow> state \<Rightarrow> bool" where
  "one_live_per_token now st = distinct (live_tokens now st)"

text \<open>
  A login of \<open>user_name\<close> can open a session under the token \<open>fresh\<close>: the store is
  connected and healthy, holds no session of the user and no row of the token, and no
  live session of the manager's list has the token.
\<close>

definition opens_new_session :: "int \<Rightarrow> string \<Rightarrow> string \<Rightarrow> state \<Rightarrow> bool" where
  "opens_new_session now user_name fresh st =
     (database_connection st \<and> fault (store st) = Healthy \<and>
      tokens_of_user user_name (store st) = [] \<and>
      record_of_token fresh (store st) = None \<and>
      find (\<lambda>r. is_alive now (objects st ! r) \<and> token (objects st ! r) = fresh)
        (sessions st) = None)"

text \<open>The manager's list names objects, each once, and no two of its live sessions share
  a token.\<close>

definition well_formed :: "int \<Rightarrow> state \<Rightarrow> bool" where
  "well_formed now st =
     (refs_valid st \<and> distinct (sessions st) \<and> one_live_per_token now st)"

text \<open>From \<open>st\<close> to \<open>st'\<close> no object was lost, and every address of the list of \<open>st'\<close> was
  in the list of \<open>st\<close> or is the address of an object made since.\<close>

definition extends :: "state \<Rightarrow> state \<Rightarrow> bool" where
  "extends st st' =
     (length (objects st) \<le> length (objects st') \<and>
      list_all (\<lambda>r. r \<in> set (sessions st) \<or>
                    (length (objects st) \<le> r \<and> r < length (objects st')))
        (sessions st'))"

subsection \<open>A server for the scenarios\<close>

text \<open>No PAM and no LDAP module accepts anything; the hash is a stand-in that keeps its
  argument readable.\<close>

definition example_env :: env where
  "example_env =
     \<lparr>unsupported_methods = [], sha256_hexdigest = (\<lambda>s. ''sha256:'' @ s),
      pam_auth_user = (\<lambda>u p. False), ldap_auth_user = (\<lambda>c u p. False),
      ldap_get_groups = (\<lambda>c u p. [])\<rparr>"

text \<open>Lifetime 60 seconds, pruning at the third login, the root credential
  \<^verbatim>\<open>root:adminpw\<close>, and the dictionary method with the entry \<^verbatim>\<open>alice:secret\<close> and the
  group \<^verbatim>\<open>dev\<close> for \<^verbatim>\<open>alice\<close>.\<close>

definition example_config :: auth_config where
  "example_config =
     \<lparr>enabled = True, config_session_lifetime = 60, logins_until_cleanup = 3,
      method_root = Some ''sha256:root:adminpw'',
      method_dictionary =
        Some \<lparr>dictionary_enabled = True, auths = Some [''alice:secret''],
              dictionary_groups = Some [''alice'' \<mapsto> [''dev'']]\<rparr>,
      method_pam = None, method_ldap = None\<rparr>"

text \<open>The same server with the PAM and the LDAP method enabled.\<close>

definition pam_ldap_config :: auth_config where
  "pam_ldap_config =
     example_config
       \<lparr>method_pam := Some \<lparr>pam_enabled = True\<rparr>,
        method_ldap := Some \<lparr>ldap_enabled = True, authorities = Some [''ldap://directory'']\<rparr>\<rparr>"

definition empty_store :: "fault \<Rightarrow> durable_store" where
  "empty_store f = \<lparr>session_rows = [], permission_rows = [], fault = f\<rparr>"

text \<open>A manager as \<^verbatim>\<open>__init__\<close> leaves it, and one connected to a healthy, empty store.\<close>

definition fresh_manager :: state where
  "fresh_manager = init_state (empty_store Healthy)"

definition connected_manager :: state where
  "connected_manager = set_database_connection True (init_state (empty_store Healthy))"

text \<open>After \<^verbatim>\<open>alice\<close> logged in at time 0 and the token \<^verbatim>\<open>A\<close> was drawn.\<close>

definition alice_logged_in :: state where
  "alice_logged_in =
     snd (create_or_get_session example_env example_config 0 ''A'' ''alice:secret''
            connected_manager)"

text \<open>The store holds a session of the token \<^verbatim>\<open>A\<close> last used at time 0; the process has
  no session in memory.\<close>

definition stored_only :: state where
  "stored_only =
     \<lparr>objects = [], database_connection = True, logins_since_prune = 0, sessions = [],
      store =
        \<lparr>session_rows =
           [\<lparr>rec_token = ''A'', rec_user_name = ''alice'', rec_groups = ''dev'',
             rec_last_access = 0\<rparr>],
         permission_rows = [], fault = Healthy\<rparr>\<rparr>"

text \<open>The session of \<^verbatim>\<open>alice\<close> is in memory and the store's callable raises.\<close>

definition store_unreachable :: state where
  "store_unreachable =
     alice_logged_in\<lparr>store := (store alice_logged_in)\<lparr>fault := ConnectRaises\<rparr>\<rparr>"

text \<open>A day of the server: the store is connected, \<^verbatim>\<open>alice\<close> logs in and gets the token
  \<^verbatim>\<open>A\<close>, her session is looked up and revalidated at time 30, the store is emptied at time
  95, and she logs in again, which is the third login and prunes.\<close>

definition example_ops :: "(int \<times> operation) list" where
  "example_ops =
     [(0, Set_database_connection True),
      (0, Create_or_get_session ''alice:secret'' ''A''),
      (30, Get_session ''A''),
      (30, Revalidate 0),
      (95, Store_changes (empty_store Healthy)),
      (95, Create_or_get_session ''alice:secret'' ''B''),
      (95, Cleanup_sessions)]"

text \<open>The session of \<^verbatim>\<open>alice\<close> is in memory and two logins were counted since the last
  pruning pass.\<close>

definition pruning_due :: state where
  "pruning_due = alice_logged_in\<lparr>logins_since_prune := 2\<rparr>"

section \<open>Evaluating the scenarios\<close>

lemmas validator_defs =
  authenticate_def try_auth_root_def handle_validation_def try_auth_dictionary_def
  try_auth_pam_def try_auth_ldap_def is_method_enabled_def method_enabled_key_def
  get_user_name_def

lemmas manager_defs =
  create_or_get_session_def session_for_validation_def get_db_session_tokens_def
  get_session_def get_local_session_from_db_def invalidate_def cleanup_sessions_def
  revalidate_def new_session_def Session_init_def is_alive_def
  tokens_of_user_def record_of_token_def has_system_permission_def update_last_access_def
  add_record_def delete_token_def

lemmas example_defs =
  example_env_def example_config_def pam_ldap_config_def empty_store_def fresh_manager_def
  connected_manager_def init_state_def set_database_connection_def

lemma alice_logged_in_eq:
  "alice_logged_in =
     \<lparr>objects =
        [\<lparr>token = ''A'', user = ''alice'', groups = [''dev''], session_lifetime = 60,
          root = False, database = True, last_access = 0\<rparr>],
      database_connection = True, logins_since_prune = 1, sessions = [0],
      store =
        \<lparr>session_rows =
           [\<lparr>rec_token = ''A'', rec_user_name = ''alice'', rec_groups = ''dev'',
             rec_last_access = 0\<rparr>],
         permission_rows = [], fault = Healthy\<rparr>\<rparr>"
  by (simp add: alice_logged_in_def validator_defs manager_defs example_defs Let_def)

section \<open>How the operations change the state\<close>

subsection \<open>The loop of invalidate\<close>

lemma remove_local_filter_aux:
  "mset (filter (\<lambda>r. token (objs ! r) = t) xs) = mset (filter (\<lambda>r. token (objs ! r) = t) ss)
   \<Longrightarrow> remove_local objs t xs ss = filter (\<lambda>r. token (objs ! r) \<noteq> t) ss"
proof (induction xs arbitrary: ss)
  case Nil
  then have "filter (\<lambda>r. token (objs ! r) = t) ss = []" by simp
  then have "\<forall>r\<in>set ss. token (objs ! r) \<noteq> t"
    by (simp add: filter_empty_conv)
  then show ?case by simp
next
  case (Cons r rs)
  show ?case
  proof (cases "token (objs ! r) = t")
    case False
    with Cons show ?thesis by simp
  next
    case True
    let ?P = "\<lambda>r. token (objs ! r) = t"
    from Cons.prems True
    have eq: "add_mset r (mset (filter ?P rs)) = mset (filter ?P ss)" by simp
    have "mset (filter ?P (remove1 r ss)) = mset (filter ?P ss) - {#r#}"
      by (simp add: filter_remove1)
    also have "\<dots> = mset (filter ?P rs)"
      using eq [symmetric] by simp
    finally have "remove_local objs t rs (remove1 r ss) =
        filter (\<lambda>r. token (objs ! r) \<noteq> t) (remove1 r ss)"
      using Cons.IH [of "remove1 r ss"] by simp
    also have "\<dots> = remove1 r (filter (\<lambda>r. token (objs ! r) \<noteq> t) ss)"
      by (simp add: filter_remove1)
    also have "\<dots> = filter (\<lambda>r. token (objs ! r) \<noteq> t) ss"
      using True by (simp add: remove1_idem)
    finally show ?thesis using True by simp
  qed
qed

lemma remove_local_eq:
  "remove_local objs t ss ss = filter (\<lambda>r. token (objs ! r) \<noteq> t) ss"
  by (rule remove_local_filter_aux) simp

subsection \<open>What invalidate does\<close>

lemma invalidate_eq:
  "invalidate t st =
     (if database_connection st \<and> fault (store st) = ConnectRaises
      then (Inl UnboundLocalError, st)
      else (Inr (\<not> (database_connection st \<and> fault (store st) = QueryRaises)),
            st\<lparr>sessions := filter (\<lambda>r. token (objects st ! r) \<noteq> t) (sessions st),
               store := (if database_connection st \<and> fault (store st) = Healthy
                         then delete_token t (store st) else store st)\<rparr>))"
  by (cases "fault (store st)") (simp_all add: invalidate_def remove_local_eq)

lemma sessions_invalidate:
  "sessions (snd (invalidate t st)) =
     (if database_connection st \<and> fault (store st) = ConnectRaises then sessions st
      else filter (\<lambda>r. token (objects st ! r) \<noteq> t) (sessions st))"
  by (simp add: invalidate_eq)

lemma invalidate_keeps [simp]:
  "objects (snd (invalidate t st)) = objects st"
  "logins_since_prune (snd (invalidate t st)) = logins_since_prune st"
  "database_connection (snd (invalidate t st)) = database_connection st"
  "fault (store (snd (invalidate t st))) = fault (store st)"
  by (simp_all add: invalidate_eq delete_token_def)

text \<open>Unless the store's callable raises, \<open>invalidate\<close> returns: it takes every session
  of the token out of the manager's list, and it reports failure exactly when the deletion
  in the store raises. A second call finds nothing more to remove.\<close>

lemma invalidate_reports:
  assumes "\<not> (database_connection st \<and> fault (store st) = ConnectRaises)"
  shows "fst (invalidate t st) =
           Inr (\<not> (database_connection st \<and> fault (store st) = QueryRaises)) \<and>
         sessions (snd (invalidate t st)) =
           filter (\<lambda>r. token (objects st ! r) \<noteq> t) (sessions st) \<and>
         sessions (snd (invalidate t (snd (invalidate t st)))) = sessions (snd (invalidate t st))"
proof -
  from assms have first: "invalidate t st =
      (Inr (\<not> (database_connection st \<and> fault (store st) = QueryRaises)),
       st\<lparr>sessions := filter (\<lambda>r. token (objects st ! r) \<noteq> t) (sessions st),
          store := (if database_connection st \<and> fault (store st) = Healthy
                    then delete_token t (store st) else store st)\<rparr>)"
    unfolding invalidate_eq by (rule if_not_P)
  then show ?thesis
    by (simp add: sessions_invalidate)
qed

subsection \<open>Well-formed states\<close>

lemma distinct_map_filter_mono:
  "distinct (map f (filter P xs)) \<Longrightarrow> (\<forall>x\<in>set xs. Q x \<longrightarrow> P x) \<Longrightarrow>
   (\<forall>x\<in>set xs. g x = f x) \<Longrightarrow> distinct (map g (filter Q xs))"
proof (induction xs)
  case Nil
  then show ?case by simp
next
  case (Cons x xs)
  then have tl: "distinct (map g (filter Q xs))"
    by (auto split: if_splits)
  show ?case
  proof (cases "Q x")
    case False
    with tl show ?thesis by simp
  next
    case True
    with Cons.prems have px: "P x" by simp
    with Cons.prems have "f x \<notin> f ` set (filter P xs)" by simp
    moreover have "g ` set (filter Q xs) \<subseteq> f ` set (filter P xs)"
      using Cons.prems(2,3) by force
    moreover have "g x = f x" using Cons.prems(3) by simp
    ultimately show ?thesis using tl True by auto
  qed
qed

lemma well_formed_later:
  assumes "well_formed now st" and "now \<le> later"
  shows "well_formed later st"
proof -
  have "distinct (live_tokens later st)"
    unfolding live_tokens_def
    by (rule distinct_map_filter_mono
          [where P = "\<lambda>r. is_alive now (objects st ! r)" and f = "\<lambda>r. token (objects st ! r)"])
       (use assms in \<open>simp_all add: well_formed_def one_live_per_token_def live_tokens_def
          is_alive_def\<close>)
  with assms(1) show ?thesis
    by (simp add: well_formed_def one_live_per_token_def)
qed

text \<open>What \<open>one_live_per_token\<close> says of two positions of the manager's list.\<close>

lemma one_live_per_token_pairs:
  assumes "one_live_per_token now st" and "i < j" and "j < length (sessions st)"
    and "is_alive now (objects st ! (sessions st ! i))"
    and "is_alive now (objects st ! (sessions st ! j))"
  shows "token (objects st ! (sessions st ! i)) \<noteq> token (objects st ! (sessions st ! j))"
proof -
  let ?f = "\<lambda>r. token (objects st ! r)"
  let ?P = "\<lambda>r. is_alive now (objects st ! r)"
  let ?xs = "sessions st"
  have split: "?xs = take j ?xs @ ?xs ! j # drop (Suc j) ?xs"
    using assms(3) by (rule id_take_nth_drop)
  have "distinct (map ?f (filter ?P ?xs))"
    using assms(1) by (simp add: one_live_per_token_def live_tokens_def)
  then have "distinct (map ?f (filter ?P (take j ?xs @ ?xs ! j # drop (Suc j) ?xs)))"
    using split by simp
  with assms(5) have "?f (?xs ! j) \<notin> ?f ` set (filter ?P (take j ?xs))"
    by auto
  moreover have "?xs ! i \<in> set (filter ?P (take j ?xs))"
    using assms(2,3,4) by (auto simp: in_set_conv_nth intro!: exI [of _ i])
  then have "?f (?xs ! i) \<in> ?f ` set (filter ?P (take j ?xs))"
    by (rule imageI)
  ultimately show ?thesis by auto
qed

lemma well_formed_filter:
  assumes "well_formed now st"
    and "objects st' = objects st" and "sessions st' = filter P (sessions st)"
  shows "well_formed now st'"
proof -
  have "distinct (map (\<lambda>r. token (objects st ! r))
          (filter (\<lambda>r. is_alive now (objects st ! r)) (filter P (sessions st))))"
    unfolding filter_filter
    by (rule distinct_map_filter_mono
          [where P = "\<lambda>r. is_alive now (objects st ! r)" and f = "\<lambda>r. token (objects st ! r)"])
       (use assms(1) in \<open>simp_all add: well_formed_def one_live_per_token_def live_tokens_def\<close>)
  with assms show ?thesis
    by (simp add: well_formed_def one_live_per_token_def live_tokens_def refs_valid_def
        list_all_iff)
qed

lemma well_formed_invalidate:
  "well_formed now st \<Longrightarrow> well_formed now (snd (invalidate t st))"
proof (cases "database_connection st \<and> fault (store st) = ConnectRaises")
  case True
  moreover assume "well_formed now st"
  ultimately show ?thesis by (simp add: invalidate_eq)
next
  case False
  moreover assume "well_formed now st"
  ultimately show ?thesis
    by (elim well_formed_filter [where P = "\<lambda>r. token (objects st ! r) \<noteq> t"])
       (auto simp: sessions_invalidate)
qed


subsection \<open>Growing states\<close>

lemma extends_refl: "extends st st"
  by (simp add: extends_def list_all_iff)

lemma extends_trans: "extends a b \<Longrightarrow> extends b c \<Longrightarrow> extends a c"
  unfolding extends_def list_all_iff by (elim conjE, intro conjI ballI) fastforce+

lemma extends_subset:
  "length (objects st) \<le> length (objects st') \<Longrightarrow> set (sessions st') \<subseteq> set (sessions st) \<Longrightarrow>
   extends st st'"
  by (auto simp: extends_def list_all_iff)

lemma refs_valid_extends: "refs_valid st \<Longrightarrow> extends st st' \<Longrightarrow> refs_valid st'"
  unfolding extends_def refs_valid_def list_all_iff by fastforce

lemma extends_absent:
  "extends st st' \<Longrightarrow> r \<notin> set (sessions st) \<Longrightarrow> r < length (objects st) \<Longrightarrow>
   r \<notin> set (sessions st')"
  unfolding extends_def list_all_iff by fastforce

lemma extends_invalidate: "extends st (snd (invalidate t st))"
  by (rule extends_subset) (auto simp: sessions_invalidate)

subsection \<open>The pruning pass\<close>

lemma invalidate_all_keeps [simp]:
  "objects (snd (invalidate_all ts st)) = objects st"
  "logins_since_prune (snd (invalidate_all ts st)) = logins_since_prune st"
  "database_connection (snd (invalidate_all ts st)) = database_connection st"
  "fault (store (snd (invalidate_all ts st))) = fault (store st)"
  by (induction ts arbitrary: st; simp split: prod.split sum.split;
      metis invalidate_keeps snd_conv)+

lemma well_formed_invalidate_all:
  "well_formed now st \<Longrightarrow> well_formed now (snd (invalidate_all ts st))"
proof (induction ts arbitrary: st)
  case Nil
  then show ?case by simp
next
  case (Cons t ts)
  from Cons.prems have "well_formed now (snd (invalidate t st))"
    by (rule well_formed_invalidate)
  then show ?case
    using Cons.IH [of "snd (invalidate t st)"]
    by (cases "invalidate t st") (auto split: sum.split)
qed

lemma extends_invalidate_all: "extends st (snd (invalidate_all ts st))"
proof (induction ts arbitrary: st)
  case Nil
  then show ?case by (simp add: extends_refl)
next
  case (Cons t ts)
  have "extends st (snd (invalidate t st))" by (rule extends_invalidate)
  then show ?case
    using Cons.IH [of "snd (invalidate t st)"]
    by (cases "invalidate t st") (auto split: sum.split intro: extends_trans)
qed

lemma invalidate_all_reachable:
  assumes "\<not> (database_connection st \<and> fault (store st) = ConnectRaises)"
  shows "fst (invalidate_all ts st) = Inr () \<and>
         sessions (snd (invalidate_all ts st)) =
           filter (\<lambda>r. token (objects st ! r) \<notin> set ts) (sessions st) \<and>
         permission_rows (store (snd (invalidate_all ts st))) = permission_rows (store st) \<and>
         session_rows (store (snd (invalidate_all ts st))) =
           (if database_connection st \<and> fault (store st) = Healthy
            then filter (\<lambda>row. rec_token row \<notin> set ts) (session_rows (store st))
            else session_rows (store st))"
  using assms
proof (induction ts arbitrary: st)
  case Nil
  then show ?case by simp
next
  case (Cons t ts)
  let ?st1 = "st\<lparr>sessions := filter (\<lambda>r. token (objects st ! r) \<noteq> t) (sessions st),
               store := (if database_connection st \<and> fault (store st) = Healthy
                         then delete_token t (store st) else store st)\<rparr>"
  from Cons.prems have "invalidate t st = (Inr (\<not> (database_connection st \<and> fault (store st) = QueryRaises)), ?st1)"
    unfolding invalidate_eq by (rule if_not_P)
  then have step: "invalidate_all (t # ts) st = invalidate_all ts ?st1"
    by simp
  have "\<not> (database_connection ?st1 \<and> fault (store ?st1) = ConnectRaises)"
    using Cons.prems by (simp add: delete_token_def)
  from Cons.IH [OF this] show ?case
    unfolding step by (auto simp: delete_token_def conj_commute)
qed

lemma cleanup_sessions_keeps [simp]:
  "objects (snd (cleanup_sessions now st)) = objects st"
  "logins_since_prune (snd (cleanup_sessions now st)) = 0"
  "database_connection (snd (cleanup_sessions now st)) = database_connection st"
  "fault (store (snd (cleanup_sessions now st))) = fault (store st)"
  by (simp_all add: cleanup_sessions_def)

lemma well_formed_cleanup_sessions:
  "well_formed now st \<Longrightarrow> well_formed now (snd (cleanup_sessions now st))"
proof -
  assume "well_formed now st"
  then have "well_formed now (st\<lparr>logins_since_prune := 0\<rparr>)"
    by (simp add: well_formed_def refs_valid_def one_live_per_token_def live_tokens_def)
  then show ?thesis
    unfolding cleanup_sessions_def Let_def by (rule well_formed_invalidate_all)
qed

lemma extends_cleanup_sessions: "extends st (snd (cleanup_sessions now st))"
proof -
  have "extends st (st\<lparr>logins_since_prune := 0\<rparr>)"
    by (simp add: extends_def list_all_iff)
  then show ?thesis
    unfolding cleanup_sessions_def Let_def
    by (rule extends_trans) (rule extends_invalidate_all)
qed

lemma cleanup_sessions_reachable:
  assumes "\<not> (database_connection st \<and> fault (store st) = ConnectRaises)"
  shows "fst (cleanup_sessions now st) = Inr () \<and>
         set (sessions (snd (cleanup_sessions now st))) \<subseteq>
           {r \<in> set (sessions st). is_alive now (objects st ! r)} \<and>
         set (sessions (snd (cleanup_sessions now st))) \<subseteq> set (sessions st) \<and>
         permission_rows (store (snd (cleanup_sessions now st))) = permission_rows (store st) \<and>
         set (session_rows (store (snd (cleanup_sessions now st)))) \<subseteq>
           set (session_rows (store st))"
proof -
  let ?st0 = "st\<lparr>logins_since_prune := 0\<rparr>"
  let ?ts = "map (\<lambda>r. token (objects st ! r))
               (filter (\<lambda>r. \<not> is_alive now (objects st ! r)) (sessions st))"
  have "\<not> (database_connection ?st0 \<and> fault (store ?st0) = ConnectRaises)"
    using assms by simp
  from invalidate_all_reachable [OF this, of ?ts]
  show ?thesis
    unfolding cleanup_sessions_def Let_def by (auto split: if_splits)
qed


subsection \<open>New objects\<close>

lemma well_formed_alloc:
  assumes "well_formed now st"
  shows "well_formed now (st\<lparr>objects := objects st @ [s]\<rparr>)"
proof -
  have old: "\<forall>r\<in>set (sessions st). (objects st @ [s]) ! r = objects st ! r"
    using assms by (simp add: well_formed_def refs_valid_def list_all_iff nth_append)
  have "live_tokens now (st\<lparr>objects := objects st @ [s]\<rparr>) = live_tokens now st"
    unfolding live_tokens_def using old
    by (simp cong: map_cong filter_cong)
  with assms show ?thesis
    by (auto simp: well_formed_def refs_valid_def list_all_iff one_live_per_token_def)
qed

lemma well_formed_append:
  assumes "well_formed now st"
    and "\<forall>r\<in>set (sessions st). is_alive now (objects st ! r) \<longrightarrow> token (objects st ! r) \<noteq> token s"
  shows "well_formed now
           (st\<lparr>objects := objects st @ [s], sessions := sessions st @ [length (objects st)]\<rparr>)"
proof -
  let ?st' = "st\<lparr>objects := objects st @ [s], sessions := sessions st @ [length (objects st)]\<rparr>"
  have valid: "\<forall>r\<in>set (sessions st). r < length (objects st)"
    using assms(1) by (simp add: well_formed_def refs_valid_def list_all_iff)
  then have old: "\<forall>r\<in>set (sessions st). (objects st @ [s]) ! r = objects st ! r"
    by (simp add: nth_append)
  have "live_tokens now ?st' =
          live_tokens now st @ (if is_alive now s then [token s] else [])"
    unfolding live_tokens_def using old
    by (simp cong: map_cong filter_cong)
  moreover have "token s \<notin> set (live_tokens now st)"
    using assms(2) by (auto simp: live_tokens_def)
  moreover have "length (objects st) \<notin> set (sessions st)"
    using valid by auto
  ultimately show ?thesis
    using assms(1) valid
    by (auto simp: well_formed_def refs_valid_def list_all_iff one_live_per_token_def)
qed

subsection \<open>Sessions read from the store\<close>

lemma get_local_session_from_db_cases:
  obtains
    (raised) "get_local_session_from_db cfg now t st = (Inl UnboundLocalError, st)"
      "database_connection st" "fault (store st) = ConnectRaises"
  | (none) "get_local_session_from_db cfg now t st = (Inr None, st)"
      "\<not> (database_connection st \<and> fault (store st) = ConnectRaises)"
      "\<not> database_connection st \<or> fault (store st) = QueryRaises \<or>
       record_of_token t (store st) = None"
  | (found) row where
      "get_local_session_from_db cfg now t st =
         (Inr (Some (length (objects st))),
          st\<lparr>objects := objects st @
             [Session_init now t (rec_user_name row) (py_split CHR '';'' (rec_groups row))
                (config_session_lifetime cfg)
                (has_system_permission (rec_user_name row) (store st)) True
                (Some (rec_last_access row))]\<rparr>)"
      "database_connection st" "fault (store st) = Healthy"
      "record_of_token t (store st) = Some row"
  by (cases "database_connection st"; cases "fault (store st)";
      cases "record_of_token t (store st)")
     (auto simp: get_local_session_from_db_def new_session_def Let_def)

subsection \<open>What get_session does\<close>

lemma token_Session_init [simp]: "token (Session_init now t u g l b d la) = t"
  by (simp add: Session_init_def)

lemma well_formed_get_session:
  assumes "well_formed now st"
  shows "well_formed now (snd (get_session cfg now t st))"
proof (cases "enabled cfg")
  case False
  with assms show ?thesis by (simp add: get_session_def)
next
  case True
  show ?thesis
  proof (cases "find (\<lambda>r. is_alive now (objects st ! r) \<and> token (objects st ! r) = t) (sessions st)")
    case (Some r)
    with True assms show ?thesis by (simp add: get_session_def)
  next
    case None
    then have no_live: "\<forall>r\<in>set (sessions st). is_alive now (objects st ! r) \<longrightarrow> token (objects st ! r) \<noteq> t"
      by (auto simp: find_None_iff)
    show ?thesis
    proof (cases cfg now t st rule: get_local_session_from_db_cases)
      case raised
      with True None assms show ?thesis by (simp add: get_session_def)
    next
      case none
      with True None have "snd (get_session cfg now t st) = snd (invalidate t st)"
        by (simp add: get_session_def split: prod.split sum.split)
      with assms show ?thesis by (simp add: well_formed_invalidate)
    next
      case (found row)
      let ?s = "Session_init now t (rec_user_name row) (py_split CHR '';'' (rec_groups row))
                (config_session_lifetime cfg)
                (has_system_permission (rec_user_name row) (store st)) True
                (Some (rec_last_access row))"
      let ?st1 = "st\<lparr>objects := objects st @ [?s]\<rparr>"
      show ?thesis
      proof (cases "is_alive now ?s")
        case alive: True
        with True None found(1)
        have "snd (get_session cfg now t st) =
                st\<lparr>objects := objects st @ [?s], sessions := sessions st @ [length (objects st)]\<rparr>"
          by (simp add: get_session_def)
        moreover have "well_formed now
           (st\<lparr>objects := objects st @ [?s], sessions := sessions st @ [length (objects st)]\<rparr>)"
          using assms no_live by (intro well_formed_append) simp_all
        ultimately show ?thesis by simp
      next
        case dead: False
        with True None found(1)
        have "snd (get_session cfg now t st) = snd (invalidate t ?st1)"
          by (simp add: get_session_def split: prod.split sum.split)
        moreover have "well_formed now ?st1"
          using assms by (rule well_formed_alloc)
        ultimately show ?thesis by (simp add: well_formed_invalidate)
      qed
    qed
  qed
qed


lemma get_session_cases:
  obtains
    (disabled) "\<not> enabled cfg" "get_session cfg now t st = (Inr None, st)"
  | (cached) r where "enabled cfg"
      "find (\<lambda>r. is_alive now (objects st ! r) \<and> token (objects st ! r) = t) (sessions st) = Some r"
      "get_session cfg now t st = (Inr (Some r), st)"
  | (raised) "enabled cfg"
      "find (\<lambda>r. is_alive now (objects st ! r) \<and> token (objects st ! r) = t) (sessions st) = None"
      "database_connection st" "fault (store st) = ConnectRaises"
      "get_session cfg now t st = (Inl UnboundLocalError, st)"
  | (absent) "enabled cfg"
      "find (\<lambda>r. is_alive now (objects st ! r) \<and> token (objects st ! r) = t) (sessions st) = None"
      "\<not> (database_connection st \<and> fault (store st) = ConnectRaises)"
      "\<not> database_connection st \<or> fault (store st) = QueryRaises \<or>
       record_of_token t (store st) = None"
      "get_session cfg now t st =
         (Inr None,
          st\<lparr>sessions := filter (\<lambda>r. token (objects st ! r) \<noteq> t) (sessions st),
             store := (if database_connection st \<and> fault (store st) = Healthy
                       then delete_token t (store st) else store st)\<rparr>)"
  | (promoted) row s where "enabled cfg"
      "find (\<lambda>r. is_alive now (objects st ! r) \<and> token (objects st ! r) = t) (sessions st) = None"
      "database_connection st" "fault (store st) = Healthy"
      "record_of_token t (store st) = Some row"
      "s = Session_init now t (rec_user_name row) (py_split CHR '';'' (rec_groups row))
             (config_session_lifetime cfg)
             (has_system_permission (rec_user_name row) (store st)) True
             (Some (rec_last_access row))"
      "is_alive now s"
      "get_session cfg now t st =
         (Inr (Some (length (objects st))),
          st\<lparr>objects := objects st @ [s], sessions := sessions st @ [length (objects st)]\<rparr>)"
  | (stale) row s where "enabled cfg"
      "find (\<lambda>r. is_alive now (objects st ! r) \<and> token (objects st ! r) = t) (sessions st) = None"
      "database_connection st" "fault (store st) = Healthy"
      "record_of_token t (store st) = Some row"
      "s = Session_init now t (rec_user_name row) (py_split CHR '';'' (rec_groups row))
             (config_session_lifetime cfg)
             (has_system_permission (rec_user_name row) (store st)) True
             (Some (rec_last_access row))"
      "\<not> is_alive now s"
      "get_session cfg now t st =
         (Inr (Some (length (objects st))),
          st\<lparr>objects := objects st @ [s],
             sessions := filter (\<lambda>r. token ((objects st @ [s]) ! r) \<noteq> t) (sessions st),
             store := delete_token t (store st)\<rparr>)"
proof (cases "enabled cfg")
  case False
  then show ?thesis by (intro disabled) (simp_all add: get_session_def)
next
  case en: True
  show ?thesis
  proof (cases "find (\<lambda>r. is_alive now (objects st ! r) \<and> token (objects st ! r) = t) (sessions st)")
    case (Some r)
    with en show ?thesis by (intro cached [of r]) (simp_all add: get_session_def)
  next
    case None
    show ?thesis
    proof (cases cfg now t st rule: get_local_session_from_db_cases)
      case raised
      with en None show ?thesis by (intro that(3)) (simp_all add: get_session_def)
    next
      case none
      from none(2) have "invalidate t st =
         (Inr (\<not> (database_connection st \<and> fault (store st) = QueryRaises)),
          st\<lparr>sessions := filter (\<lambda>r. token (objects st ! r) \<noteq> t) (sessions st),
             store := (if database_connection st \<and> fault (store st) = Healthy
                       then delete_token t (store st) else store st)\<rparr>)"
        unfolding invalidate_eq by (rule if_not_P)
      with en None none show ?thesis by (intro absent) (simp_all add: get_session_def)
    next
      case (found row)
      let ?s = "Session_init now t (rec_user_name row) (py_split CHR '';'' (rec_groups row))
                (config_session_lifetime cfg)
                (has_system_permission (rec_user_name row) (store st)) True
                (Some (rec_last_access row))"
      show ?thesis
      proof (cases "is_alive now ?s")
        case True
        with en None found show ?thesis
          by (intro promoted [of row ?s]) (simp_all add: get_session_def)
      next
        case False
        with en None found show ?thesis
          by (intro stale [of row ?s]) (simp_all add: get_session_def invalidate_eq)
      qed
    qed
  qed
qed

lemma extends_get_session: "extends st (snd (get_session cfg now t st))"
  by (cases cfg now t st rule: get_session_cases)
     (auto simp: extends_def list_all_iff)

lemma logins_get_session [simp]:
  "logins_since_prune (snd (get_session cfg now t st)) = logins_since_prune st"
  by (cases cfg now t st rule: get_session_cases) auto

lemma get_session_none:
  assumes "enabled cfg" and "get_session cfg now t st = (Inr None, st')"
  shows "objects st' = objects st \<and> set (sessions st') \<subseteq> set (sessions st) \<and>
         (\<forall>r\<in>set (sessions st'). token (objects st' ! r) \<noteq> t) \<and>
         database_connection st' = database_connection st \<and>
         fault (store st') = fault (store st)"
  using assms
  by (cases cfg now t st rule: get_session_cases) (auto simp: delete_token_def)

subsection \<open>What revalidate does\<close>

lemma revalidate_eq:
  "revalidate now r st =
     (if \<not> is_alive now (objects st ! r) then (Inr (), st)
      else
        (if database (objects st ! r) \<and> fault (store st) = ConnectRaises
         then Inl UnboundLocalError else Inr (),
         st\<lparr>objects := (objects st)[r := (objects st ! r)\<lparr>last_access := now\<rparr>],
            store := (if database (objects st ! r) \<and> fault (store st) = Healthy
                      then update_last_access (token (objects st ! r)) now (store st)
                      else store st)\<rparr>))"
  by (cases "fault (store st)") (simp_all add: revalidate_def Let_def)

lemma revalidate_keeps [simp]:
  "sessions (snd (revalidate now r st)) = sessions st"
  "logins_since_prune (snd (revalidate now r st)) = logins_since_prune st"
  "database_connection (snd (revalidate now r st)) = database_connection st"
  "length (objects (snd (revalidate now r st))) = length (objects st)"
  by (simp_all add: revalidate_eq)

lemma extends_revalidate: "extends st (snd (revalidate now r st))"
  by (rule extends_subset) simp_all

lemma well_formed_revalidate:
  assumes "well_formed now st"
  shows "well_formed now (snd (revalidate now r st))"
proof (cases "is_alive now (objects st ! r)")
  case False
  with assms show ?thesis by (simp add: revalidate_eq)
next
  case True
  let ?objs = "(objects st)[r := (objects st ! r)\<lparr>last_access := now\<rparr>]"
  have objs: "objects (snd (revalidate now r st)) = ?objs"
    using True by (simp add: revalidate_eq)
  have valid: "\<forall>x\<in>set (sessions st). x < length (objects st)"
    using assms by (simp add: well_formed_def refs_valid_def list_all_iff)
  have "distinct (map (\<lambda>x. token (?objs ! x)) (filter (\<lambda>x. is_alive now (?objs ! x)) (sessions st)))"
  proof (rule distinct_map_filter_mono
          [where P = "\<lambda>x. is_alive now (objects st ! x)" and f = "\<lambda>x. token (objects st ! x)"])
    show "distinct (map (\<lambda>x. token (objects st ! x))
            (filter (\<lambda>x. is_alive now (objects st ! x)) (sessions st)))"
      using assms by (simp add: well_formed_def one_live_per_token_def live_tokens_def)
    show "\<forall>x\<in>set (sessions st). is_alive now (?objs ! x) \<longrightarrow> is_alive now (objects st ! x)"
    proof (intro ballI impI)
      fix x assume "x \<in> set (sessions st)" and "is_alive now (?objs ! x)"
      then show "is_alive now (objects st ! x)"
        using True by (cases "x = r") simp_all
    qed
    show "\<forall>x\<in>set (sessions st). token (?objs ! x) = token (objects st ! x)"
    proof
      fix x assume "x \<in> set (sessions st)"
      with valid have "x < length (objects st)" by simp
      then show "token (?objs ! x) = token (objects st ! x)"
        by (cases "x = r") simp_all
    qed
  qed
  with assms objs show ?thesis
    by (simp add: well_formed_def one_live_per_token_def live_tokens_def refs_valid_def)
qed


subsection \<open>Fields that the invariants do not read\<close>

lemma well_formed_updates [simp]:
  "well_formed now (st\<lparr>store := db\<rparr>) = well_formed now st"
  "well_formed now (st\<lparr>logins_since_prune := n\<rparr>) = well_formed now st"
  "well_formed now (st\<lparr>database_connection := c\<rparr>) = well_formed now st"
  by (simp_all add: well_formed_def refs_valid_def one_live_per_token_def live_tokens_def)

lemma extends_updates [simp]:
  "extends st (st'\<lparr>store := db\<rparr>) = extends st st'"
  "extends st (st'\<lparr>logins_since_prune := n\<rparr>) = extends st st'"
  "extends st (st'\<lparr>database_connection := c\<rparr>) = extends st st'"
  "extends (st\<lparr>store := db\<rparr>) st' = extends st st'"
  "extends (st\<lparr>logins_since_prune := n\<rparr>) st' = extends st st'"
  "extends (st\<lparr>database_connection := c\<rparr>) st' = extends st st'"
  by (simp_all add: extends_def)

lemma extends_append:
  "extends st (st\<lparr>objects := objects st @ [s], sessions := sessions st @ [length (objects st)]\<rparr>)"
  by (simp add: extends_def list_all_iff)

subsection \<open>The second half of a login\<close>

lemma get_db_session_tokens_eq:
  "get_db_session_tokens user_name st =
     (if database_connection st \<and> fault (store st) = Healthy
      then Inr (Some (tokens_of_user user_name (store st)))
      else if database_connection st \<and> fault (store st) = ConnectRaises
      then Inl UnboundLocalError else Inr None)"
  by (cases "fault (store st)") (simp_all add: get_db_session_tokens_def)

lemma session_for_validation_cases:
  obtains
    (no_tokens) err where "session_for_validation cfg now fresh v st = (Inl err, st)"
      "\<not> (database_connection st \<and> fault (store st) = Healthy)"
  | (lookup_raised) tok err st1 where
      "database_connection st" "fault (store st) = Healthy"
      "tok = (case tokens_of_user (username_key v) (store st) of t # _ \<Rightarrow> t | [] \<Rightarrow> fresh)"
      "get_session cfg now tok st = (Inl err, st1)"
      "session_for_validation cfg now fresh v st = (Inl err, st1)"
  | (reused) tok r st1 where
      "database_connection st" "fault (store st) = Healthy"
      "tok = (case tokens_of_user (username_key v) (store st) of t # _ \<Rightarrow> t | [] \<Rightarrow> fresh)"
      "get_session cfg now tok st = (Inr (Some r), st1)"
      "snd (session_for_validation cfg now fresh v st) = snd (revalidate now r st1)"
      "fst (session_for_validation cfg now fresh v st) =
         (case fst (revalidate now r st1) of Inl err \<Rightarrow> Inl err | Inr _ \<Rightarrow> Inr (Session r))"
  | (created) tok st1 s where
      "database_connection st" "fault (store st) = Healthy"
      "tok = (case tokens_of_user (username_key v) (store st) of t # _ \<Rightarrow> t | [] \<Rightarrow> fresh)"
      "get_session cfg now tok st = (Inr None, st1)"
      "s = Session_init now tok (username_key v)
             (case groups_key v of Some g \<Rightarrow> g | None \<Rightarrow> []) (config_session_lifetime cfg)
             (case root_key v of Some b \<Rightarrow> b | None \<Rightarrow> False) (database_connection st1) None"
      "fst (session_for_validation cfg now fresh v st) =
         (if database_connection st1 \<and> fault (store st1) = ConnectRaises
          then Inl UnboundLocalError else Inr (Session (length (objects st1))))"
      "snd (session_for_validation cfg now fresh v st) =
         st1\<lparr>objects := objects st1 @ [s],
             sessions := sessions st1 @ [length (objects st1)],
             store := (if database_connection st1 \<and> fault (store st1) = Healthy
                       then add_record
                              \<lparr>rec_token = tok, rec_user_name = username_key v,
                               rec_groups = py_join '';''
                                 (case groups_key v of Some g \<Rightarrow> g | None \<Rightarrow> []),
                               rec_last_access = now\<rparr> (store st1)
                       else store st1)\<rparr>"
proof (cases "database_connection st \<and> fault (store st) = Healthy")
  case False
  then have "get_db_session_tokens (username_key v) st = Inl UnboundLocalError \<or>
             get_db_session_tokens (username_key v) st = Inr None"
    unfolding get_db_session_tokens_eq by auto
  then have "\<exists>err. session_for_validation cfg now fresh v st = (Inl err, st)"
    by (auto simp: session_for_validation_def)
  with False show ?thesis using no_tokens by blast
next
  case True
  define tok where
    "tok = (case tokens_of_user (username_key v) (store st) of t # _ \<Rightarrow> t | [] \<Rightarrow> fresh)"
  from True have toks: "get_db_session_tokens (username_key v) st =
      Inr (Some (tokens_of_user (username_key v) (store st)))"
    by (simp add: get_db_session_tokens_def)
  obtain res st1 where gs: "get_session cfg now tok st = (res, st1)"
    by (cases "get_session cfg now tok st")
  show ?thesis
  proof (cases res)
    case (Inl err)
    with True toks gs tok_def show ?thesis
      by (intro lookup_raised [of tok err st1])
         (simp_all add: session_for_validation_def Let_def)
  next
    case (Inr found)
    show ?thesis
    proof (cases found)
      case (Some r)
      with True toks gs tok_def Inr show ?thesis
        by (intro reused [of tok r st1])
           (simp_all add: session_for_validation_def Let_def split: prod.split sum.split)
    next
      case None
      with True toks gs tok_def Inr show ?thesis
        by (intro created [of tok st1])
           (cases "fault (store st1)";
            simp add: session_for_validation_def Let_def new_session_def)+
    qed
  qed
qed

lemma well_formed_session_for_validation:
  assumes "enabled cfg" and "well_formed now st"
  shows "well_formed now (snd (session_for_validation cfg now fresh v st))"
proof (cases cfg now fresh v st rule: session_for_validation_cases)
  case (no_tokens err)
  with assms show ?thesis by simp
next
  case (lookup_raised tok err st1)
  with well_formed_get_session [OF assms(2), of cfg tok] show ?thesis by simp
next
  case (reused tok r st1)
  with well_formed_get_session [OF assms(2), of cfg tok]
  show ?thesis by (simp add: well_formed_revalidate)
next
  case (created tok st1 s)
  from well_formed_get_session [OF assms(2), of cfg tok] created(4)
  have wf1: "well_formed now st1" by simp
  from get_session_none [OF assms(1) created(4)]
  have "\<forall>r\<in>set (sessions st1). token (objects st1 ! r) \<noteq> tok" by blast
  with created(5)
  have "\<forall>r\<in>set (sessions st1). is_alive now (objects st1 ! r) \<longrightarrow>
          token (objects st1 ! r) \<noteq> token s" by simp
  from well_formed_append [OF wf1 this] created(7) show ?thesis by simp
qed

lemma extends_session_for_validation:
  "extends st (snd (session_for_validation cfg now fresh v st))"
proof (cases cfg now fresh v st rule: session_for_validation_cases)
  case (no_tokens err)
  then show ?thesis by (simp add: extends_refl)
next
  case (lookup_raised tok err st1)
  with extends_get_session [of st cfg now tok] show ?thesis by simp
next
  case (reused tok r st1)
  with extends_get_session [of st cfg now tok] extends_revalidate [of st1 now r]
  show ?thesis by (auto intro: extends_trans)
next
  case (created tok st1 s)
  with extends_get_session [of st cfg now tok] extends_append [of st1 s]
  show ?thesis by (auto intro: extends_trans)
qed

lemma logins_session_for_validation [simp]:
  "logins_since_prune (snd (session_for_validation cfg now fresh v st)) = logins_since_prune st"
proof (cases cfg now fresh v st rule: session_for_validation_cases)
  case (no_tokens err)
  then show ?thesis by simp
next
  case (lookup_raised tok err st1)
  from lookup_raised(4) have "logins_since_prune st1 = logins_since_prune st"
    by (metis logins_get_session snd_conv)
  with lookup_raised(5) show ?thesis by simp
next
  case (reused tok r st1)
  from reused(4) have "logins_since_prune st1 = logins_since_prune st"
    by (metis logins_get_session snd_conv)
  with reused(5) show ?thesis by simp
next
  case (created tok st1 s)
  from created(4) have "logins_since_prune st1 = logins_since_prune st"
    by (metis logins_get_session snd_conv)
  with created(7) show ?thesis by simp
qed

subsection \<open>A whole login\<close>

lemma create_or_get_session_cases:
  obtains
    (disabled) "\<not> enabled cfg"
      "create_or_get_session e cfg now fresh a st = (Inr NoSessionRequired, st)"
  | (login) st2 where "enabled cfg"
      "st2 = (if logins_until_cleanup cfg \<le> logins_since_prune st + 1
              then snd (cleanup_sessions now (st\<lparr>logins_since_prune := logins_since_prune st + 1\<rparr>))
              else st\<lparr>logins_since_prune := logins_since_prune st + 1\<rparr>)"
      "snd (create_or_get_session e cfg now fresh a st) = st2 \<or>
       snd (create_or_get_session e cfg now fresh a st) =
         snd (session_for_validation cfg now fresh (the (projr (authenticate e cfg a))) st2)"
  by (cases "enabled cfg")
     (auto simp: create_or_get_session_def Let_def split: prod.split sum.split option.split)

lemma well_formed_create_or_get_session:
  assumes "well_formed now st"
  shows "well_formed now (snd (create_or_get_session e cfg now fresh a st))"
proof (cases e cfg now fresh a st rule: create_or_get_session_cases)
  case disabled
  with assms show ?thesis by simp
next
  case (login st2)
  from assms login(2) have "well_formed now st2"
    by (simp add: well_formed_cleanup_sessions)
  with login(1,3) show ?thesis
    by (auto simp: well_formed_session_for_validation)
qed

lemma logins_create_or_get_session:
  assumes "enabled cfg"
  shows "logins_since_prune (snd (create_or_get_session e cfg now fresh a st)) =
           (if logins_until_cleanup cfg \<le> logins_since_prune st + 1 then 0
            else logins_since_prune st + 1)"
  using assms
  by (cases e cfg now fresh a st rule: create_or_get_session_cases) auto

lemma extends_create_or_get_session:
  "extends st (snd (create_or_get_session e cfg now fresh a st))"
proof (cases e cfg now fresh a st rule: create_or_get_session_cases)
  case disabled
  then show ?thesis by (simp add: extends_refl)
next
  case (login st2)
  have "extends st st2"
    using login(2) extends_cleanup_sessions [of "st\<lparr>logins_since_prune := logins_since_prune st + 1\<rparr>" now]
    by (simp add: extends_refl)
  with login(3) extends_session_for_validation [of st2 cfg now fresh]
  show ?thesis by (auto intro: extends_trans)
qed


subsection \<open>Logins that open a new session\<close>

lemma opens_new_session_logins [simp]:
  "opens_new_session now u fresh (st\<lparr>logins_since_prune := n\<rparr>) = opens_new_session now u fresh st"
  by (simp add: opens_new_session_def)

lemma opens_new_session_cleanup:
  assumes "opens_new_session now u fresh st"
  shows "fst (cleanup_sessions now st) = Inr () \<and>
         objects (snd (cleanup_sessions now st)) = objects st \<and>
         opens_new_session now u fresh (snd (cleanup_sessions now st))"
proof -
  let ?st2 = "snd (cleanup_sessions now st)"
  from assms have "\<not> (database_connection st \<and> fault (store st) = ConnectRaises)"
    by (simp add: opens_new_session_def)
  note pruned = cleanup_sessions_reachable [OF this, of now]
  from pruned have rows: "set (session_rows (store ?st2)) \<subseteq> set (session_rows (store st))"
    and refs: "set (sessions ?st2) \<subseteq> set (sessions st)" by simp_all
  from assms rows have "tokens_of_user u (store ?st2) = []"
    by (auto simp: opens_new_session_def tokens_of_user_def filter_empty_conv)
  moreover from assms rows have "record_of_token fresh (store ?st2) = None"
    by (auto simp: opens_new_session_def record_of_token_def find_None_iff)
  moreover from assms refs
  have "find (\<lambda>r. is_alive now (objects ?st2 ! r) \<and> token (objects ?st2 ! r) = fresh)
          (sessions ?st2) = None"
    by (auto simp: opens_new_session_def find_None_iff)
  ultimately show ?thesis
    using assms pruned by (simp add: opens_new_session_def)
qed

lemma session_for_validation_new:
  assumes "enabled cfg" and "opens_new_session now (username_key v) fresh st"
  shows "\<exists>st'. session_for_validation cfg now fresh v st =
                 (Inr (Session (length (objects st))), st') \<and>
               objects st' = objects st @
                 [Session_init now fresh (username_key v)
                    (case groups_key v of Some g \<Rightarrow> g | None \<Rightarrow> []) (config_session_lifetime cfg)
                    (case root_key v of Some b \<Rightarrow> b | None \<Rightarrow> False) True None] \<and>
               length (objects st) \<in> set (sessions st')"
proof -
  from assms(2) have conn: "database_connection st" and healthy: "fault (store st) = Healthy"
    and none: "tokens_of_user (username_key v) (store st) = []"
    and row: "record_of_token fresh (store st) = None"
    and mem: "find (\<lambda>r. is_alive now (objects st ! r) \<and> token (objects st ! r) = fresh)
                (sessions st) = None"
    by (simp_all add: opens_new_session_def)
  have gs: "get_session cfg now fresh st =
      (Inr None,
       st\<lparr>sessions := filter (\<lambda>r. token (objects st ! r) \<noteq> fresh) (sessions st),
          store := delete_token fresh (store st)\<rparr>)"
    using assms(1) conn healthy row mem
    by (cases cfg now fresh st rule: get_session_cases) simp_all
  show ?thesis
  proof (cases cfg now fresh v st rule: session_for_validation_cases)
    case (no_tokens err)
    with conn healthy show ?thesis by simp
  next
    case (lookup_raised tok err st1)
    with none gs show ?thesis by simp
  next
    case (reused tok r st1)
    with none gs show ?thesis by simp
  next
    case (created tok st1 s)
    from created(3) none have tok: "tok = fresh" by simp
    with created(4) gs
    have st1: "st1 = st\<lparr>sessions := filter (\<lambda>r. token (objects st ! r) \<noteq> fresh) (sessions st),
          store := delete_token fresh (store st)\<rparr>" by simp
    then have facts: "database_connection st1" "fault (store st1) = Healthy"
      "objects st1 = objects st"
      using conn healthy by (simp_all add: delete_token_def)
    from created(6) facts
    have res: "fst (session_for_validation cfg now fresh v st) = Inr (Session (length (objects st)))"
      by simp
    from created(5,7) facts tok
    have "objects (snd (session_for_validation cfg now fresh v st)) = objects st @
                 [Session_init now fresh (username_key v)
                    (case groups_key v of Some g \<Rightarrow> g | None \<Rightarrow> []) (config_session_lifetime cfg)
                    (case root_key v of Some b \<Rightarrow> b | None \<Rightarrow> False) True None]"
      and "length (objects st) \<in> set (sessions (snd (session_for_validation cfg now fresh v st)))"
      by simp_all
    with res show ?thesis
      by (cases "session_for_validation cfg now fresh v st") auto
  qed
qed

lemma create_or_get_session_new:
  assumes "enabled cfg" and "authenticate e cfg a = Inr (Some v)"
    and "opens_new_session now (username_key v) fresh st"
  shows "\<exists>st'. create_or_get_session e cfg now fresh a st =
                 (Inr (Session (length (objects st))), st') \<and>
               objects st' = objects st @
                 [Session_init now fresh (username_key v)
                    (case groups_key v of Some g \<Rightarrow> g | None \<Rightarrow> []) (config_session_lifetime cfg)
                    (case root_key v of Some b \<Rightarrow> b | None \<Rightarrow> False) True None] \<and>
               length (objects st) \<in> set (sessions st')"
proof -
  let ?st1 = "st\<lparr>logins_since_prune := logins_since_prune st + 1\<rparr>"
  from assms(3) have open1: "opens_new_session now (username_key v) fresh ?st1" by simp
  show ?thesis
  proof (cases "logins_until_cleanup cfg \<le> logins_since_prune st + 1")
    case True
    obtain res st2 where pruned: "cleanup_sessions now ?st1 = (res, st2)"
      by (cases "cleanup_sessions now ?st1")
    with opens_new_session_cleanup [OF open1]
    have ok: "res = Inr ()" and objs: "objects st2 = objects st"
      and open2: "opens_new_session now (username_key v) fresh st2" by simp_all
    from True assms(1,2) pruned ok
    have "create_or_get_session e cfg now fresh a st = session_for_validation cfg now fresh v st2"
      by (simp add: create_or_get_session_def)
    with session_for_validation_new [OF assms(1) open2] objs show ?thesis by simp
  next
    case False
    with assms(1,2)
    have "create_or_get_session e cfg now fresh a st = session_for_validation cfg now fresh v ?st1"
      by (simp add: create_or_get_session_def)
    with session_for_validation_new [OF assms(1) open1] show ?thesis by simp
  qed
qed

lemma opens_new_session_connected_manager:
  "opens_new_session now u fresh connected_manager"
  by (simp add: opens_new_session_def example_defs tokens_of_user_def record_of_token_def)

subsection \<open>Sequences of operations keep states well-formed\<close>

lemma well_formed_init_state: "well_formed now (init_state db)"
  by (simp add: well_formed_def refs_valid_def one_live_per_token_def live_tokens_def
      init_state_def)

lemma well_formed_apply_op:
  "well_formed now st \<Longrightarrow> well_formed now (apply_op e cfg now operation st)"
  by (cases operation)
     (simp_all add: well_formed_create_or_get_session well_formed_get_session
        well_formed_invalidate well_formed_cleanup_sessions well_formed_revalidate
        set_database_connection_def)

lemma well_formed_run:
  "well_formed t0 st \<Longrightarrow> sorted (t0 # map fst ops @ [now]) \<Longrightarrow>
   well_formed now (run e cfg ops st)"
proof (induction ops arbitrary: t0 st)
  case Nil
  then show ?case by (simp add: well_formed_later)
next
  case (Cons timed ops)
  obtain t operation where timed: "timed = (t, operation)" by (cases timed)
  from Cons.prems timed have "t0 \<le> t" and rest: "sorted (t # map fst ops @ [now])"
    by simp_all
  with Cons.prems(1) have "well_formed t st" by (simp add: well_formed_later)
  then have "well_formed t (apply_op e cfg t operation st)"
    by (rule well_formed_apply_op)
  from Cons.IH [OF this rest] timed show ?case by simp
qed


section \<open>Logging in without a usable store\<close>

text \<open>Whatever the state of the manager's list, a login with an accepted credential ends with
  an exception unless the store is connected and healthy.\<close>

lemma login_needs_healthy_store:
  assumes "enabled cfg" and "authenticate e cfg a = Inr (Some v)"
    and "\<not> (database_connection st \<and> fault (store st) = Healthy)"
  shows "\<exists>err. fst (create_or_get_session e cfg now fresh a st) = Inl err"
proof -
  let ?st1 = "st\<lparr>logins_since_prune := logins_since_prune st + 1\<rparr>"
  have raises: "\<exists>err. fst (session_for_validation cfg now fresh v st2) = Inl err"
    if "database_connection st2 = database_connection st"
      and "fault (store st2) = fault (store st)" for st2
    using assms(3) that
    by (cases cfg now fresh v st2 rule: session_for_validation_cases) auto
  show ?thesis
  proof (cases "logins_until_cleanup cfg \<le> logins_since_prune st + 1")
    case False
    with assms(1,2)
    have "create_or_get_session e cfg now fresh a st = session_for_validation cfg now fresh v ?st1"
      by (simp add: create_or_get_session_def)
    with raises [of ?st1] show ?thesis by simp
  next
    case True
    obtain res st2 where pruned: "cleanup_sessions now ?st1 = (res, st2)"
      by (cases "cleanup_sessions now ?st1")
    then have same: "database_connection st2 = database_connection st"
      "fault (store st2) = fault (store st)"
      using cleanup_sessions_keeps(3,4) [of now ?st1] by simp_all
    show ?thesis
    proof (cases res)
      case (Inl err)
      with True assms(1) pruned show ?thesis
        by (simp add: create_or_get_session_def)
    next
      case (Inr u)
      with True assms(1,2) pruned
      have "create_or_get_session e cfg now fresh a st = session_for_validation cfg now fresh v st2"
        by (simp add: create_or_get_session_def)
      with raises [OF same] show ?thesis by simp
    qed
  qed
qed


text \<open>
  Claim C1 (evaluated, the claim fails on the code). The claim asks that a login with an
  accepted credential yields a session also when the durable store is not connected or
  raises. A manager as the constructor leaves it has no store; the credential
  \<^verbatim>\<open>alice:secret\<close> is accepted by the dictionary method, \<^verbatim>\<open>get_db_session_tokens\<close> returns
  \<^verbatim>\<open>None\<close>, and \<^verbatim>\<open>len(tokens)\<close> raises \<^verbatim>\<open>TypeError\<close>: no session is made. The same happens
  with a connected store whose queries raise, and with a store whose callable raises the
  exception is \<^verbatim>\<open>UnboundLocalError\<close>.
\<close>

theorem login_without_store_raises:
  "authenticate example_env example_config ''alice:secret'' =
     Inr (Some \<lparr>username_key = ''alice'', groups_key = Some [''dev''], root_key = None\<rparr>) \<and>
   create_or_get_session example_env example_config 0 ''A'' ''alice:secret'' fresh_manager =
     (Inl TypeError, fresh_manager\<lparr>logins_since_prune := 1\<rparr>) \<and>
   fst (create_or_get_session example_env example_config 0 ''A'' ''alice:secret''
          (set_database_connection True (init_state (empty_store QueryRaises)))) =
     Inl TypeError \<and>
   fst (create_or_get_session example_env example_config 0 ''A'' ''alice:secret''
          (set_database_connection True (init_state (empty_store ConnectRaises)))) =
     Inl UnboundLocalError"
  by (simp add: validator_defs manager_defs example_defs)

section \<open>Looking a token up\<close>

text \<open>A token that no live session of the manager's list has and whose row in the store is
  dead: the object built from the row is returned, dead.\<close>

lemma get_session_stale:
  assumes "enabled cfg" and "database_connection st" and "fault (store st) = Healthy"
    and "find (\<lambda>r. is_alive now (objects st ! r) \<and> token (objects st ! r) = t) (sessions st) = None"
    and "record_of_token t (store st) = Some row"
    and "\<not> now - rec_last_access row \<le> config_session_lifetime cfg"
  shows "\<exists>st'. get_session cfg now t st = (Inr (Some (length (objects st))), st') \<and>
               \<not> is_alive now (objects st' ! length (objects st))"
  using assms
  by (cases cfg now t st rule: get_session_cases)
     (auto simp: Session_init_def is_alive_def)


text \<open>
  Claim C2 (evaluated, the claim fails on the code). The token \<^verbatim>\<open>A\<close> is in the durable
  store only, last used at time 0, and the lifetime is 60 seconds. At time 100
  \<^verbatim>\<open>get_session\<close> invalidates the token (the row is deleted, the manager's list stays
  empty) and then returns the session object it built from the row, which is dead; the
  claim and the method's docstring ask for \<^verbatim>\<open>None\<close>.
\<close>

theorem get_session_returns_dead_stored_session:
  "fst (get_session example_config 100 ''A'' stored_only) = Inr (Some 0) \<and>
   \<not> is_alive 100 (objects (snd (get_session example_config 100 ''A'' stored_only)) ! 0) \<and>
   sessions (snd (get_session example_config 100 ''A'' stored_only)) = [] \<and>
   session_rows (store (snd (get_session example_config 100 ''A'' stored_only))) = []"
  by (simp add: manager_defs example_defs stored_only_def)

section \<open>Splitting the credential\<close>

text \<open>The split has one part more than the credential has colons, and both validators
  raise unless there is exactly one colon.\<close>

lemma length_py_split:
  "length (py_split sep s) = Suc (length (filter (\<lambda>c. c = sep) s))"
  by (induction s) (auto split: list.split)

lemma more_colons_raise:
  assumes "length (filter (\<lambda>c. c = CHR '':'') auth_string) \<noteq> 1"
  shows "is_method_enabled e cfg ''pam'' \<Longrightarrow> try_auth_pam e cfg auth_string = Inl ValueError"
    and "is_method_enabled e cfg ''ldap'' \<Longrightarrow> try_auth_ldap e cfg auth_string = Inl ValueError"
proof -
  from assms have "length (py_split CHR '':'' auth_string) \<noteq> 2"
    by (simp add: length_py_split)
  then have shape: "\<nexists>u p. py_split CHR '':'' auth_string = [u, p]"
    by auto
  show "is_method_enabled e cfg ''pam'' \<Longrightarrow> try_auth_pam e cfg auth_string = Inl ValueError"
    using shape by (auto simp: try_auth_pam_def split: list.split)
  show "is_method_enabled e cfg ''ldap'' \<Longrightarrow> try_auth_ldap e cfg auth_string = Inl ValueError"
    using shape by (auto simp: try_auth_ldap_def split: list.split)
qed


text \<open>
  Claim C5 (evaluated, the claim fails on the code). With the PAM and the LDAP method
  enabled, the credential \<^verbatim>\<open>alice:pa:ss\<close>, whose secret holds a colon, is split at every
  colon into three parts, and unpacking them into \<open>username, password\<close> raises
  \<^verbatim>\<open>ValueError\<close> in both validators, and the login ends with that exception.
  \<^verbatim>\<open>get_user_name\<close> does take what stands before the first colon.
\<close>

theorem colon_in_secret_raises:
  "py_split CHR '':'' ''alice:pa:ss'' = [''alice'', ''pa'', ''ss''] \<and>
   try_auth_pam example_env pam_ldap_config ''alice:pa:ss'' = Inl ValueError \<and>
   try_auth_ldap example_env pam_ldap_config ''alice:pa:ss'' = Inl ValueError \<and>
   fst (create_or_get_session example_env pam_ldap_config 0 ''A'' ''alice:pa:ss''
          connected_manager) = Inl ValueError \<and>
   get_user_name ''alice:pa:ss'' = ''alice''"
  by (simp add: validator_defs manager_defs example_defs)

section \<open>Invalidating a token\<close>

text \<open>When the store's callable raises, so does \<open>invalidate\<close>, and nothing is removed.\<close>

lemma invalidate_unreachable:
  "database_connection st \<Longrightarrow> fault (store st) = ConnectRaises \<Longrightarrow>
   invalidate t st = (Inl UnboundLocalError, st)"
  by (simp add: invalidate_eq)


text \<open>
  Claim C8 (evaluated, the claim fails on the code). The session of the token \<^verbatim>\<open>A\<close> is in
  memory and the store's callable raises. \<^verbatim>\<open>invalidate\<close> catches that exception, and its
  \<^verbatim>\<open>finally\<close> clause then reads \<open>transaction\<close>, which was never bound: the call raises
  \<^verbatim>\<open>UnboundLocalError\<close>, and the session is still in the manager's list.
\<close>

theorem invalidate_raises_when_store_unreachable:
  "invalidate ''A'' store_unreachable = (Inl UnboundLocalError, store_unreachable) \<and>
   sessions store_unreachable = [0]"
  by (simp add: store_unreachable_def alice_logged_in_eq manager_defs)

section \<open>Revalidation\<close>

text \<open>
  Claim C7. Revalidating a dead session changes nothing: for a session object that is not
  alive at the time of the call, \<open>revalidate\<close> returns normally and leaves the whole state
  as it was (every field of the object, the manager's list and the durable store), and
  the object is still dead then and at every later time.
\<close>

theorem revalidate_dead_noop:
  assumes "\<not> is_alive now (objects st ! r)"
  shows "revalidate now r st = (Inr (), st) \<and>
         (\<forall>later. now \<le> later \<longrightarrow> \<not> is_alive later (objects (snd (revalidate now r st)) ! r))"
proof -
  have same: "revalidate now r st = (Inr (), st)"
    using assms by (simp add: revalidate_def)
  have "\<not> is_alive later (objects st ! r)" if "now \<le> later" for later
    using assms that by (simp add: is_alive_def)
  with same show ?thesis by simp
qed

text \<open>At time 100 the session \<^verbatim>\<open>alice\<close> opened at time 0 is dead.\<close>

theorem revalidate_dead_noop_witness:
  "\<not> is_alive 100 (objects alice_logged_in ! 0) \<and>
   revalidate 100 0 alice_logged_in = (Inr (), alice_logged_in) \<and>
   \<not> is_alive 200 (objects (snd (revalidate 100 0 alice_logged_in)) ! 0)"
proof -
  have dead: "\<not> is_alive 100 (objects alice_logged_in ! 0)"
    by (simp add: alice_logged_in_eq is_alive_def)
  note noop = revalidate_dead_noop [OF dead]
  from noop have "revalidate 100 0 alice_logged_in = (Inr (), alice_logged_in)" ..
  moreover from noop
  have "\<not> is_alive 200 (objects (snd (revalidate 100 0 alice_logged_in)) ! 0)"
    by (elim conjE allE [where x = 200]) simp
  ultimately show ?thesis using dead by blast
qed

section \<open>The login counter\<close>

text \<open>
  Claim C4, as stated, fails: the credential \<^verbatim>\<open>mallory:guess\<close> is rejected by every
  validator, and the counter, 0 before the call, is 1 after it.
\<close>

theorem rejected_login_advances_counter:
  "fst (create_or_get_session example_env example_config 0 ''A'' ''mallory:guess''
          connected_manager) = Inr Rejected \<and>
   logins_since_prune connected_manager = 0 \<and>
   logins_since_prune
     (snd (create_or_get_session example_env example_config 0 ''A'' ''mallory:guess''
             connected_manager)) = 1"
  by (simp add: validator_defs manager_defs example_defs)

text \<open>
  Claim C4, amended. The counter counts the calls of \<^verbatim>\<open>create_or_get_session\<close> made while
  authentication is enabled, whatever the credential and whatever the outcome: a call
  adds one, and when the threshold is reached the counter is 0 after the call. In that
  case, when the store is not connected or its callable yields a transaction, every
  session of the manager's list that was dead at the call is out of the list afterwards.
\<close>

theorem login_counter_counts_calls:
  assumes "enabled cfg"
  shows "logins_since_prune (snd (create_or_get_session e cfg now fresh a st)) =
           (if logins_until_cleanup cfg \<le> logins_since_prune st + 1 then 0
            else logins_since_prune st + 1) \<and>
         (logins_until_cleanup cfg \<le> logins_since_prune st + 1 \<and> refs_valid st \<and>
          \<not> (database_connection st \<and> fault (store st) = ConnectRaises) \<longrightarrow>
            (\<forall>r\<in>set (sessions st). \<not> is_alive now (objects st ! r) \<longrightarrow>
               r \<notin> set (sessions (snd (create_or_get_session e cfg now fresh a st)))))"
proof (intro conjI impI ballI)
  show "logins_since_prune (snd (create_or_get_session e cfg now fresh a st)) =
           (if logins_until_cleanup cfg \<le> logins_since_prune st + 1 then 0
            else logins_since_prune st + 1)"
    using assms by (rule logins_create_or_get_session)
next
  fix r
  assume due: "logins_until_cleanup cfg \<le> logins_since_prune st + 1 \<and> refs_valid st \<and>
          \<not> (database_connection st \<and> fault (store st) = ConnectRaises)"
    and r: "r \<in> set (sessions st)" and dead: "\<not> is_alive now (objects st ! r)"
  let ?st1 = "st\<lparr>logins_since_prune := logins_since_prune st + 1\<rparr>"
  let ?st2 = "snd (cleanup_sessions now ?st1)"
  let ?st' = "snd (create_or_get_session e cfg now fresh a st)"
  from due have "\<not> (database_connection ?st1 \<and> fault (store ?st1) = ConnectRaises)"
    by simp
  from cleanup_sessions_reachable [OF this, of now] dead
  have gone: "r \<notin> set (sessions ?st2)" by auto
  from due r have valid: "r < length (objects ?st2)"
    by (simp add: refs_valid_def list_all_iff)
  have "extends ?st2 ?st'"
  proof (cases e cfg now fresh a st rule: create_or_get_session_cases)
    case disabled
    with assms show ?thesis by simp
  next
    case (login st2)
    with due have "st2 = ?st2" by simp
    with login(3) extends_session_for_validation [of st2 cfg now fresh]
    show ?thesis by (auto simp: extends_refl)
  qed
  from extends_absent [OF this gone valid] show "r \<notin> set (sessions ?st')" .
qed

text \<open>At time 100, with two logins counted and the threshold 3, a rejected credential
  triggers the pruning pass: the dead session of \<^verbatim>\<open>alice\<close> leaves the list and the counter
  is 0.\<close>

theorem login_counter_counts_calls_witness:
  "fst (create_or_get_session example_env example_config 100 ''B'' ''mallory:guess'' pruning_due)
     = Inr Rejected \<and>
   logins_since_prune pruning_due = 2 \<and>
   logins_since_prune
     (snd (create_or_get_session example_env example_config 100 ''B'' ''mallory:guess''
             pruning_due)) = 0 \<and>
   0 \<in> set (sessions pruning_due) \<and> \<not> is_alive 100 (objects pruning_due ! 0) \<and>
   0 \<notin> set (sessions
              (snd (create_or_get_session example_env example_config 100 ''B''
                      ''mallory:guess'' pruning_due)))"
proof -
  have en: "enabled example_config" by (simp add: example_config_def)
  note inst = login_counter_counts_calls [OF en, of example_env 100 "''B''" "''mallory:guess''" pruning_due]
  have due: "logins_until_cleanup example_config \<le> logins_since_prune pruning_due + 1 \<and>
      refs_valid pruning_due \<and>
      \<not> (database_connection pruning_due \<and> fault (store pruning_due) = ConnectRaises)"
    by (simp add: pruning_due_def alice_logged_in_eq example_config_def refs_valid_def)
  have member: "0 \<in> set (sessions pruning_due)"
    and dead: "\<not> is_alive 100 (objects pruning_due ! 0)"
    and count: "logins_since_prune pruning_due = 2"
    by (simp_all add: pruning_due_def alice_logged_in_eq is_alive_def)
  from inst due member dead
  have "0 \<notin> set (sessions (snd (create_or_get_session example_env example_config 100 ''B''
                      ''mallory:guess'' pruning_due)))"
    by blast
  moreover from inst count
  have "logins_since_prune
     (snd (create_or_get_session example_env example_config 100 ''B'' ''mallory:guess''
             pruning_due)) = 0"
    by (simp add: example_config_def)
  moreover have "fst (create_or_get_session example_env example_config 100 ''B''
      ''mallory:guess'' pruning_due) = Inr Rejected"
    by (simp add: pruning_due_def alice_logged_in_eq validator_defs manager_defs example_defs)
  ultimately show ?thesis using member dead count by blast
qed

section \<open>One live session for each token\<close>

text \<open>
  Claim C9. Start from a manager as the constructor leaves it and run any sequence of
  operations (logins, lookups, invalidations, pruning passes, revalidations by callers,
  changes of the connection and of the store), each at its time, the times never
  decreasing. Then, at every time from the last operation on, the live sessions of the
  manager's list have pairwise different tokens: no two entries of the list are alive and
  share a token. An operation that ends with an exception counts with the state it
  leaves.
\<close>

theorem one_live_session_per_token:
  assumes "sorted (map fst ops)" and "\<forall>t\<in>set (map fst ops). t \<le> now"
  shows "one_live_per_token now (run e cfg ops (init_state db))"
proof -
  define t0 where "t0 = hd (map fst ops @ [now])"
  have "sorted (map fst ops @ [now])"
    using assms by (simp add: sorted_append)
  then have "sorted (t0 # map fst ops @ [now])"
    unfolding t0_def by (cases ops) simp_all
  with well_formed_init_state [of t0 db]
  have "well_formed now (run e cfg ops (init_state db))"
    by (rule well_formed_run)
  then show ?thesis by (simp add: well_formed_def)
qed

text \<open>The day of \<open>example_ops\<close> is such a sequence.\<close>

theorem one_live_session_per_token_witness:
  "sorted (map fst example_ops) \<and>
   one_live_per_token 95
     (run example_env example_config example_ops (init_state (empty_store Healthy))) \<and>
   live_tokens 95
     (run example_env example_config example_ops (init_state (empty_store Healthy))) = [''B'']"
proof -
  have s: "sorted (map fst example_ops)" by (simp add: example_ops_def)
  have b: "\<forall>t\<in>set (map fst example_ops). t \<le> 95" by (simp add: example_ops_def)
  have "live_tokens 95
     (run example_env example_config example_ops (init_state (empty_store Healthy))) = [''B'']"
    by (simp add: example_ops_def validator_defs manager_defs example_defs live_tokens_def
        Let_def)
  with one_live_session_per_token [OF s b] s show ?thesis by simp
qed

section \<open>The sliding window\<close>

text \<open>
  Claim C3, as stated, fails: \<^verbatim>\<open>alice\<close> logged in at time 0 with a lifetime of 60 seconds;
  \<^verbatim>\<open>get_session\<close> at time 30 returns her live session, and the session's last access is
  still 0, not 30.
\<close>

theorem get_session_does_not_revalidate:
  "fst (get_session example_config 30 ''A'' alice_logged_in) = Inr (Some 0) \<and>
   is_alive 30 (objects (snd (get_session example_config 30 ''A'' alice_logged_in)) ! 0) \<and>
   last_access (objects (snd (get_session example_config 30 ''A'' alice_logged_in)) ! 0) = 0"
  by (simp add: alice_logged_in_eq manager_defs example_defs)

text \<open>
  Claim C3, amended. The window slides by \<^verbatim>\<open>revalidate\<close>, which the caller runs on the
  session it got, not by \<^verbatim>\<open>get_session\<close>. When the manager's list holds a live session
  of the token, \<^verbatim>\<open>get_session\<close> returns a live session of that token from the list and
  changes nothing. \<^verbatim>\<open>revalidate\<close> at time \<open>now\<close> on a live session leaves the list as it
  is and sets the session's last access to \<open>now\<close>; from then on the session is alive
  exactly up to \<open>now\<close> plus its lifetime.
\<close>

theorem sliding_window_by_revalidate:
  assumes "enabled cfg" and "r \<in> set (sessions st)" and "r < length (objects st)"
    and "is_alive now (objects st ! r)" and "token (objects st ! r) = t"
  shows "(\<exists>r'. get_session cfg now t st = (Inr (Some r'), st) \<and> r' \<in> set (sessions st) \<and>
               is_alive now (objects st ! r') \<and> token (objects st ! r') = t) \<and>
         sessions (snd (revalidate now r st)) = sessions st \<and>
         last_access (objects (snd (revalidate now r st)) ! r) = now \<and>
         (\<forall>later. is_alive later (objects (snd (revalidate now r st)) ! r) =
                   (later - now \<le> session_lifetime (objects st ! r)))"
proof -
  let ?P = "\<lambda>r. is_alive now (objects st ! r) \<and> token (objects st ! r) = t"
  from assms(2,4,5) have "find ?P (sessions st) \<noteq> None"
    by (auto simp: find_None_iff)
  then obtain r' where found: "find ?P (sessions st) = Some r'" by auto
  then have "r' \<in> set (sessions st)" and "?P r'"
    by (auto simp: find_Some_iff)
  moreover from assms(1) found have "get_session cfg now t st = (Inr (Some r'), st)"
    by (simp add: get_session_def)
  moreover from assms(3,4)
  have "objects (snd (revalidate now r st)) ! r = (objects st ! r)\<lparr>last_access := now\<rparr>"
    by (simp add: revalidate_eq)
  ultimately show ?thesis
    by (auto simp: is_alive_def)
qed

text \<open>With a lifetime of 60 seconds and a login at time 0: the lookup at time 30 returns
  the session with last access 0; revalidated at time 30 its last access is 30, it is
  alive at time 90 and dead at time 95.\<close>

theorem sliding_window_by_revalidate_witness:
  "get_session example_config 30 ''A'' alice_logged_in = (Inr (Some 0), alice_logged_in) \<and>
   last_access (objects alice_logged_in ! 0) = 0 \<and>
   last_access (objects (snd (revalidate 30 0 alice_logged_in)) ! 0) = 30 \<and>
   is_alive 90 (objects (snd (revalidate 30 0 alice_logged_in)) ! 0) \<and>
   \<not> is_alive 95 (objects (snd (revalidate 30 0 alice_logged_in)) ! 0)"
proof -
  have hyps: "enabled example_config" "0 \<in> set (sessions alice_logged_in)"
    "0 < length (objects alice_logged_in)" "is_alive 30 (objects alice_logged_in ! 0)"
    "token (objects alice_logged_in ! 0) = ''A''"
    by (simp_all add: alice_logged_in_eq example_config_def is_alive_def)
  note inst = sliding_window_by_revalidate [OF hyps]
  have only: "sessions alice_logged_in = [0]"
    and lifetime: "session_lifetime (objects alice_logged_in ! 0) = 60"
    and before: "last_access (objects alice_logged_in ! 0) = 0"
    by (simp_all add: alice_logged_in_eq)
  from inst only
  have "get_session example_config 30 ''A'' alice_logged_in = (Inr (Some 0), alice_logged_in)"
    by auto
  moreover from inst
  have "last_access (objects (snd (revalidate 30 0 alice_logged_in)) ! 0) = 30" by blast
  moreover from inst lifetime
  have "is_alive 90 (objects (snd (revalidate 30 0 alice_logged_in)) ! 0)"
    and "\<not> is_alive 95 (objects (snd (revalidate 30 0 alice_logged_in)) ! 0)"
    by simp_all
  ultimately show ?thesis using before by blast
qed

section \<open>The order of the validators\<close>

text \<open>
  Claim C6. A login asks the root check first, then the dictionary, then PAM, then LDAP,
  and the first of them that does not reject (it accepts, or it raises) gives the result.
  A credential whose hash is the configured root hash is accepted with the root flag set
  and no groups, whatever the configuration of the other methods; and when the login
  opens a new session (authentication enabled, the store connected and healthy without a
  session of that user, the drawn token unused), the session returned is a root session
  of that user.
\<close>

theorem validators_dispatch_order:
  "authenticate e cfg a =
     (if try_auth_root e cfg a \<noteq> None then Inr (try_auth_root e cfg a)
      else if try_auth_dictionary e cfg a \<noteq> Inr None then try_auth_dictionary e cfg a
      else if try_auth_pam e cfg a \<noteq> Inr None then try_auth_pam e cfg a
      else try_auth_ldap e cfg a) \<and>
   (Some (sha256_hexdigest e a) = method_root cfg \<longrightarrow>
      authenticate e cfg a =
        Inr (Some \<lparr>username_key = get_user_name a, groups_key = Some [], root_key = Some True\<rparr>) \<and>
      (enabled cfg \<and> opens_new_session now (get_user_name a) fresh st \<longrightarrow>
         (\<exists>r st'. create_or_get_session e cfg now fresh a st = (Inr (Session r), st') \<and>
                   r \<in> set (sessions st') \<and> root (objects st' ! r) \<and>
                   user (objects st' ! r) = get_user_name a \<and>
                   groups (objects st' ! r) = [])))"
proof (intro conjI impI)
  show "authenticate e cfg a =
     (if try_auth_root e cfg a \<noteq> None then Inr (try_auth_root e cfg a)
      else if try_auth_dictionary e cfg a \<noteq> Inr None then try_auth_dictionary e cfg a
      else if try_auth_pam e cfg a \<noteq> Inr None then try_auth_pam e cfg a
      else try_auth_ldap e cfg a)"
    by (auto simp: authenticate_def handle_validation_def split: option.splits sum.splits)
next
  assume hash: "Some (sha256_hexdigest e a) = method_root cfg"
  then show accepted: "authenticate e cfg a =
        Inr (Some \<lparr>username_key = get_user_name a, groups_key = Some [], root_key = Some True\<rparr>)"
    by (simp add: authenticate_def try_auth_root_def)
  assume "enabled cfg \<and> opens_new_session now (get_user_name a) fresh st"
  then have "enabled cfg" and
    "opens_new_session now
       (username_key \<lparr>username_key = get_user_name a, groups_key = Some [], root_key = Some True\<rparr>)
       fresh st"
    by simp_all
  from create_or_get_session_new [OF this(1) accepted this(2)]
  show "\<exists>r st'. create_or_get_session e cfg now fresh a st = (Inr (Session r), st') \<and>
                   r \<in> set (sessions st') \<and> root (objects st' ! r) \<and>
                   user (objects st' ! r) = get_user_name a \<and>
                   groups (objects st' ! r) = []"
    by (auto simp: Session_init_def)
qed

text \<open>The root credential \<^verbatim>\<open>root:adminpw\<close> on a server that also has the dictionary, PAM
  and LDAP methods enabled.\<close>

theorem validators_dispatch_order_witness:
  "authenticate example_env pam_ldap_config ''root:adminpw'' =
     Inr (Some \<lparr>username_key = ''root'', groups_key = Some [], root_key = Some True\<rparr>) \<and>
   (\<exists>r st'. create_or_get_session example_env pam_ldap_config 0 ''R'' ''root:adminpw''
               connected_manager = (Inr (Session r), st') \<and>
             r \<in> set (sessions st') \<and> root (objects st' ! r) \<and>
             user (objects st' ! r) = ''root'' \<and> groups (objects st' ! r) = [])"
proof -
  have hash: "Some (sha256_hexdigest example_env ''root:adminpw'') = method_root pam_ldap_config"
    by (simp add: example_defs)
  have ready: "enabled pam_ldap_config \<and>
      opens_new_session 0 (get_user_name ''root:adminpw'') ''R'' connected_manager"
    by (simp add: opens_new_session_connected_manager) (simp add: example_defs)
  have name: "get_user_name ''root:adminpw'' = ''root''"
    by (simp add: get_user_name_def)
  from validators_dispatch_order
         [of example_env pam_ldap_config "''root:adminpw''" 0 "''R''" connected_manager]
       hash ready
  show ?thesis unfolding name by blast
qed

section \<open>The dictionary method\<close>

text \<open>
  Claim C10. With the dictionary method enabled and its list of credentials present: a
  credential that is not an entry of the list is rejected by the dictionary validator; an
  entry is accepted with the user name before its first colon and the groups the mapping
  has for that user, no groups when the mapping is missing or has no entry for the user.
  When, moreover, authentication is enabled, the credential is not the root credential
  and the login opens a new session (the store connected and healthy without a session
  of that user, the drawn token unused), \<^verbatim>\<open>create_or_get_session\<close> returns a session of
  that user with those groups that is not a root session.
\<close>

theorem dictionary_login:
  assumes "method_dictionary cfg = Some d" and "is_method_enabled e cfg ''dictionary''"
    and "auths d = Some entries"
  shows "(a \<notin> set entries \<longrightarrow> try_auth_dictionary e cfg a = Inr None) \<and>
         (a \<in> set entries \<longrightarrow>
            (\<exists>g. try_auth_dictionary e cfg a =
                    Inr (Some \<lparr>username_key = get_user_name a, groups_key = Some g,
                                root_key = None\<rparr>) \<and>
                  (\<forall>m l. dictionary_groups d = Some m \<and> m (get_user_name a) = Some l \<longrightarrow> g = l) \<and>
                  (dictionary_groups d = None \<longrightarrow> g = []) \<and>
                  (\<forall>m. dictionary_groups d = Some m \<and> m (get_user_name a) = None \<longrightarrow> g = []) \<and>
                  (enabled cfg \<and> Some (sha256_hexdigest e a) \<noteq> method_root cfg \<and>
                   opens_new_session now (get_user_name a) fresh st \<longrightarrow>
                     (\<exists>r st'. create_or_get_session e cfg now fresh a st = (Inr (Session r), st') \<and>
                               r \<in> set (sessions st') \<and>
                               user (objects st' ! r) = get_user_name a \<and>
                               groups (objects st' ! r) = g \<and>
                               \<not> root (objects st' ! r)))))"
proof (intro conjI impI)
  assume "a \<notin> set entries"
  with assms show "try_auth_dictionary e cfg a = Inr None"
    by (simp add: try_auth_dictionary_def)
next
  assume member: "a \<in> set entries"
  define g where "g = (case dictionary_groups d of None \<Rightarrow> []
                      | Some m \<Rightarrow> (case m (get_user_name a) of Some l \<Rightarrow> l | None \<Rightarrow> []))"
  let ?v = "\<lparr>username_key = get_user_name a, groups_key = Some g, root_key = None\<rparr>"
  from assms member have dict: "try_auth_dictionary e cfg a = Inr (Some ?v)"
    by (simp add: try_auth_dictionary_def g_def Let_def)
  have new: "\<exists>r st'. create_or_get_session e cfg now fresh a st = (Inr (Session r), st') \<and>
               r \<in> set (sessions st') \<and> user (objects st' ! r) = get_user_name a \<and>
               groups (objects st' ! r) = g \<and> \<not> root (objects st' ! r)"
    if ready: "enabled cfg \<and> Some (sha256_hexdigest e a) \<noteq> method_root cfg \<and>
               opens_new_session now (get_user_name a) fresh st"
  proof -
    from ready dict have accepted: "authenticate e cfg a = Inr (Some ?v)"
      by (simp add: authenticate_def try_auth_root_def handle_validation_def)
    from ready have "enabled cfg" and "opens_new_session now (username_key ?v) fresh st"
      by simp_all
    from create_or_get_session_new [OF this(1) accepted this(2)]
    show ?thesis by (auto simp: Session_init_def)
  qed
  show "\<exists>g. try_auth_dictionary e cfg a =
                    Inr (Some \<lparr>username_key = get_user_name a, groups_key = Some g,
                                root_key = None\<rparr>) \<and>
                  (\<forall>m l. dictionary_groups d = Some m \<and> m (get_user_name a) = Some l \<longrightarrow> g = l) \<and>
                  (dictionary_groups d = None \<longrightarrow> g = []) \<and>
                  (\<forall>m. dictionary_groups d = Some m \<and> m (get_user_name a) = None \<longrightarrow> g = []) \<and>
                  (enabled cfg \<and> Some (sha256_hexdigest e a) \<noteq> method_root cfg \<and>
                   opens_new_session now (get_user_name a) fresh st \<longrightarrow>
                     (\<exists>r st'. create_or_get_session e cfg now fresh a st = (Inr (Session r), st') \<and>
                               r \<in> set (sessions st') \<and>
                               user (objects st' ! r) = get_user_name a \<and>
                               groups (objects st' ! r) = g \<and>
                               \<not> root (objects st' ! r)))"
    using dict new by (intro exI [of _ g]) (auto simp: g_def)
qed

text \<open>The entry \<^verbatim>\<open>alice:secret\<close> with the mapping of \<^verbatim>\<open>alice\<close> to the group \<^verbatim>\<open>dev\<close>.\<close>

theorem dictionary_login_witness:
  "try_auth_dictionary example_env example_config ''alice:wrong'' = Inr None \<and>
   try_auth_dictionary example_env example_config ''alice:secret'' =
     Inr (Some \<lparr>username_key = ''alice'', groups_key = Some [''dev''], root_key = None\<rparr>) \<and>
   (\<exists>r st'. create_or_get_session example_env example_config 0 ''A'' ''alice:secret''
               connected_manager = (Inr (Session r), st') \<and>
             r \<in> set (sessions st') \<and> user (objects st' ! r) = ''alice'' \<and>
             groups (objects st' ! r) = [''dev''] \<and> \<not> root (objects st' ! r))"
proof -
  have block: "method_dictionary example_config =
      Some \<lparr>dictionary_enabled = True, auths = Some [''alice:secret''],
            dictionary_groups = Some [''alice'' \<mapsto> [''dev'']]\<rparr>"
    and on: "is_method_enabled example_env example_config ''dictionary''"
    and entries: "auths \<lparr>dictionary_enabled = True, auths = Some [''alice:secret''],
            dictionary_groups = Some [''alice'' \<mapsto> [''dev'']]\<rparr> = Some [''alice:secret'']"
    by (simp_all add: example_defs is_method_enabled_def method_enabled_key_def)
  note inst = dictionary_login [OF block on entries]
  have name: "get_user_name ''alice:secret'' = ''alice''"
    by (simp add: get_user_name_def)
  have ready: "enabled example_config \<and>
      Some (sha256_hexdigest example_env ''alice:secret'') \<noteq> method_root example_config \<and>
      opens_new_session 0 (get_user_name ''alice:secret'') ''A'' connected_manager"
    by (simp add: opens_new_session_connected_manager) (simp add: example_defs)
  from inst [of "''alice:wrong''"]
  have wrong: "try_auth_dictionary example_env example_config ''alice:wrong'' = Inr None"
    by simp
  from inst [of "''alice:secret''" 0 "''A''" connected_manager] ready
  obtain g where g: "try_auth_dictionary example_env example_config ''alice:secret'' =
        Inr (Some \<lparr>username_key = get_user_name ''alice:secret'', groups_key = Some g,
                    root_key = None\<rparr>)"
      "\<forall>m l. Some [''alice'' \<mapsto> [''dev'']] = Some m \<and> m (get_user_name ''alice:secret'') = Some l
         \<longrightarrow> g = l"
      "\<exists>r st'. create_or_get_session example_env example_config 0 ''A'' ''alice:secret''
               connected_manager = (Inr (Session r), st') \<and>
             r \<in> set (sessions st') \<and> user (objects st' ! r) = get_user_name ''alice:secret'' \<and>
             groups (objects st' ! r) = g \<and> \<not> root (objects st' ! r)"
    by auto
  from g(2) name have "g = [''dev'']" by simp
  with g(1,3) wrong show ?thesis unfolding name by simp
qed

end
